theory Spec2Isabelle
  imports Main "HOL-Library.AList"
begin

section \<open>JavaScript values used by both components\<close>

text \<open>
  A \<^verbatim>\<open>number\<close> is a double. \<open>Finite n\<close> stands for the double whose value is the
  integer \<open>n\<close> (both zeros are \<open>Finite 0\<close>; no operation modelled here tells them
  apart); fractions are not represented. An integer that is not a double is rounded to
  the nearest one, ties to the even significand, and to an infinity from
  \<open>2 ^ 1024 - 2 ^ 970\<close> on.
\<close>

datatype js_number = Finite int | NaN | PosInfinity | NegInfinity

fun bit_length :: "nat \<Rightarrow> nat" where
  "bit_length n = (if n = 0 then 0 else Suc (bit_length (n div 2)))"

definition nearest_double :: "nat \<Rightarrow> nat option" where
  "nearest_double n =
     (if n < 2 ^ 53 then Some n
      else
        let e = bit_length n - 53;
            q = n div 2 ^ e;
            r = n mod 2 ^ e;
            q' = (if 2 ^ e < 2 * r \<or> (2 * r = 2 ^ e \<and> odd q) then q + 1 else q);
            v = q' * 2 ^ e
        in if 2 ^ 1024 \<le> v then None else Some v)"

definition double_of_int :: "int \<Rightarrow> js_number" where
  "double_of_int i =
     (case nearest_double (nat \<bar>i\<bar>) of
        Some v \<Rightarrow> Finite (if i < 0 then - int v else int v)
      | None \<Rightarrow> if i < 0 then NegInfinity else PosInfinity)"

text \<open>The product with 1000 and the value that \<^verbatim>\<open>x++\<close> stores, on doubles.\<close>

definition js_times_1000 :: "js_number \<Rightarrow> js_number" where
  "js_times_1000 x = (case x of Finite n \<Rightarrow> double_of_int (n * 1000) | _ \<Rightarrow> x)"

definition js_increment :: "js_number \<Rightarrow> js_number" where
  "js_increment x = (case x of Finite n \<Rightarrow> double_of_int (n + 1) | _ \<Rightarrow> x)"

text \<open>\<^verbatim>\<open>a < b\<close> on numbers, and "\<open>b\<close> is \<open>a\<close> or above \<open>a\<close>".\<close>

fun js_less :: "js_number \<Rightarrow> js_number \<Rightarrow> bool" where
  "js_less (Finite a) (Finite b) = (a < b)"
| "js_less (Finite a) PosInfinity = True"
| "js_less NegInfinity (Finite b) = True"
| "js_less NegInfinity PosInfinity = True"
| "js_less _ _ = False"

definition not_below :: "js_number \<Rightarrow> js_number \<Rightarrow> bool" where
  "not_below a b \<longleftrightarrow> a = b \<or> js_less a b"

section \<open>Progress ledger: \<^verbatim>\<open>src/utils/checkpointManager.ts\<close>\<close>

text \<open>
  The class \<^verbatim>\<open>CheckpointManager\<close> keeps one document in memory and rewrites one file.
  Its two interfaces become records. \<^verbatim>\<open>lastIssueIndex\<close> is a number, or \<^verbatim>\<open>null\<close>
  (\<open>None\<close>) in a record read back from a file. \<^verbatim>\<open>totalIssuesProcessed\<close> starts at 0
  and only grows by \<^verbatim>\<open>++\<close>, so it is an integer. The own properties of the
  \<^verbatim>\<open>projects\<close> object are an association list in insertion order, read with \<open>map_of\<close>
  and written with \<open>AList.update\<close> (an existing key keeps its place, a new key goes to
  the end); a pair behind an earlier pair with the same key is not a property.
  The constructor's \<^verbatim>\<open>mkdirSync\<close> and \<^verbatim>\<open>printStatus\<close>, which only prints what
  \<^verbatim>\<open>getSummary\<close> returns, are left out.
\<close>

record CheckpointState =
  projectKey :: string
  lastIssueKey :: string
  lastIssueIndex :: "js_number option"
  totalIssuesProcessed :: int
  timestamp :: string
  completed :: bool

record ScraperCheckpoint =
  projects :: "(string \<times> CheckpointState) list"
  startTime :: string
  lastUpdateTime :: string

subsection \<open>What \<^verbatim>\<open>projects[projectKey]\<close> reads\<close>

text \<open>
  \<^verbatim>\<open>projects\<close> is a plain object, so \<^verbatim>\<open>projects[projectKey]\<close> looks a name up along the
  prototype chain. A name that is not an own property is found on
  \<^verbatim>\<open>Object.prototype\<close> when it is \<^verbatim>\<open>__proto__\<close> (the value is \<^verbatim>\<open>Object.prototype\<close>
  itself), one of its eleven methods (the value is the function object), or a property
  that an earlier call has written onto \<^verbatim>\<open>Object.prototype\<close>. The ledger writes only
  the five fields below onto such objects; a \<open>bag\<close> holds the ones written so far.
  These objects belong to the process, not to the manager.
\<close>

record bag =
  b_lastIssueKey :: "string option"
  b_lastIssueIndex :: "js_number option"
  b_totalIssuesProcessed :: "js_number option"
  b_timestamp :: "string option"
  b_completed :: "bool option"

definition empty_bag :: bag where
  "empty_bag = \<lparr>b_lastIssueKey = None, b_lastIssueIndex = None, b_totalIssuesProcessed = None,
     b_timestamp = None, b_completed = None\<rparr>"

record builtins =
  function_props :: "string \<Rightarrow> bag"
  prototype_props :: bag

definition fresh_builtins :: builtins where
  "fresh_builtins = \<lparr>function_props = (\<lambda>f. empty_bag), prototype_props = empty_bag\<rparr>"

definition Object_prototype_functions :: "string list" where
  "Object_prototype_functions =
     [''constructor'', ''__defineGetter__'', ''__defineSetter__'', ''hasOwnProperty'',
      ''__lookupGetter__'', ''__lookupSetter__'', ''isPrototypeOf'', ''propertyIsEnumerable'',
      ''toString'', ''valueOf'', ''toLocaleString'']"

datatype primitive = PString string | PNumber js_number | PBoolean bool

datatype slot =
    Undefined
  | Own CheckpointState
  | BuiltinFunction string
  | ObjectPrototype
  | Inherited primitive

definition inherited_field :: "bag \<Rightarrow> string \<Rightarrow> primitive option" where
  "inherited_field B key =
     (if key = ''lastIssueKey'' then map_option PString (b_lastIssueKey B)
      else if key = ''lastIssueIndex'' then map_option PNumber (b_lastIssueIndex B)
      else if key = ''totalIssuesProcessed'' then map_option PNumber (b_totalIssuesProcessed B)
      else if key = ''timestamp'' then map_option PString (b_timestamp B)
      else if key = ''completed'' then map_option PBoolean (b_completed B)
      else None)"

definition read_property :: "builtins \<Rightarrow> (string \<times> CheckpointState) list \<Rightarrow> string \<Rightarrow> slot" where
  "read_property G ps key =
     (case map_of ps key of
        Some s \<Rightarrow> Own s
      | None \<Rightarrow>
          if key = ''__proto__'' then ObjectPrototype
          else if key \<in> set Object_prototype_functions then BuiltinFunction key
          else (case inherited_field (prototype_props G) key of
                  Some p \<Rightarrow> Inherited p
                | None \<Rightarrow> Undefined))"

text \<open>Truthiness, as \<^verbatim>\<open>if (x)\<close>, \<^verbatim>\<open>!x\<close> and \<^verbatim>\<open>x || null\<close> test it.\<close>

fun truthy :: "slot \<Rightarrow> bool" where
  "truthy Undefined = False"
| "truthy (Inherited (PString s)) = (s \<noteq> [])"
| "truthy (Inherited (PNumber n)) = (n \<noteq> Finite 0 \<and> n \<noteq> NaN)"
| "truthy (Inherited (PBoolean b)) = b"
| "truthy _ = True"

text \<open>
  \<^verbatim>\<open>x.lastIssueIndex\<close>, \<^verbatim>\<open>x.completed\<close> and \<^verbatim>\<open>x.totalIssuesProcessed\<close> for the value
  \<open>x\<close> of a slot; \<open>None\<close> is \<^verbatim>\<open>undefined\<close> or \<^verbatim>\<open>null\<close>. A record has the fields
  itself; a function object has what was written onto it and inherits the rest from
  \<^verbatim>\<open>Object.prototype\<close>, as a primitive value does through its wrapper.
\<close>

definition first_of :: "'a option \<Rightarrow> 'a option \<Rightarrow> 'a option" where
  "first_of a b = (case a of Some x \<Rightarrow> Some x | None \<Rightarrow> b)"

definition get_lastIssueIndex :: "builtins \<Rightarrow> slot \<Rightarrow> js_number option" where
  "get_lastIssueIndex G x =
     (case x of
        Undefined \<Rightarrow> None
      | Own s \<Rightarrow> lastIssueIndex s
      | BuiltinFunction f \<Rightarrow>
          first_of (b_lastIssueIndex (function_props G f)) (b_lastIssueIndex (prototype_props G))
      | ObjectPrototype \<Rightarrow> b_lastIssueIndex (prototype_props G)
      | Inherited p \<Rightarrow> b_lastIssueIndex (prototype_props G))"

definition get_completed :: "builtins \<Rightarrow> slot \<Rightarrow> bool option" where
  "get_completed G x =
     (case x of
        Undefined \<Rightarrow> None
      | Own s \<Rightarrow> Some (completed s)
      | BuiltinFunction f \<Rightarrow>
          first_of (b_completed (function_props G f)) (b_completed (prototype_props G))
      | ObjectPrototype \<Rightarrow> b_completed (prototype_props G)
      | Inherited p \<Rightarrow> b_completed (prototype_props G))"

subsection \<open>The file\<close>

text \<open>
  \<^verbatim>\<open>scraper_state.json\<close> holds nothing, something that \<^verbatim>\<open>readFileSync\<close> or
  \<^verbatim>\<open>JSON.parse\<close> throws on, or JSON text, kept here as the JSON value it denotes.
  \<^verbatim>\<open>JSON.stringify\<close> writes the own enumerable properties of an object in property
  order (array-index keys first, in ascending numeric order, then the other keys in
  insertion order), a finite number as a number, and \<^verbatim>\<open>NaN\<close>, an infinity and
  \<^verbatim>\<open>null\<close> as \<^verbatim>\<open>null\<close>. What was written onto \<^verbatim>\<open>Object.prototype\<close> or its methods
  is not an own property of the document and is not written.
\<close>

datatype json = JNull | JBool bool | JNumber int | JString string | JObject "(string \<times> json) list"

datatype file_content = Absent | Unreadable | Json json

definition is_digit :: "char \<Rightarrow> bool" where
  "is_digit c \<longleftrightarrow> (48::nat) \<le> of_char c \<and> (of_char c :: nat) \<le> 57"

definition digit_value :: "char \<Rightarrow> nat" where
  "digit_value c = of_char c - 48"

definition decimal_value :: "string \<Rightarrow> nat" where
  "decimal_value s = foldl (\<lambda>n c. 10 * n + digit_value c) 0 s"

definition is_array_index :: "string \<Rightarrow> bool" where
  "is_array_index s \<longleftrightarrow>
     s \<noteq> [] \<and> list_all is_digit s \<and> (s = ''0'' \<or> hd s \<noteq> CHR ''0'') \<and>
     decimal_value s < 2 ^ 32 - 1"

definition own_properties :: "(string \<times> 'v) list \<Rightarrow> (string \<times> 'v) list" where
  "own_properties ps =
     (let qs = AList.clearjunk ps
      in sort_key (\<lambda>p. decimal_value (fst p)) (filter (\<lambda>p. is_array_index (fst p)) qs) @
         filter (\<lambda>p. \<not> is_array_index (fst p)) qs)"

definition index_json :: "js_number option \<Rightarrow> json" where
  "index_json i = (case i of Some (Finite n) \<Rightarrow> JNumber n | _ \<Rightarrow> JNull)"

definition state_json :: "CheckpointState \<Rightarrow> json" where
  "state_json s =
     JObject [(''projectKey'', JString (projectKey s)),
              (''lastIssueKey'', JString (lastIssueKey s)),
              (''lastIssueIndex'', index_json (lastIssueIndex s)),
              (''totalIssuesProcessed'', JNumber (totalIssuesProcessed s)),
              (''timestamp'', JString (timestamp s)),
              (''completed'', JBool (completed s))]"

definition JSON_stringify :: "ScraperCheckpoint \<Rightarrow> json" where
  "JSON_stringify doc =
     JObject [(''projects'',
               JObject (map (\<lambda>p. (fst p, state_json (snd p))) (own_properties (projects doc)))),
              (''startTime'', JString (startTime doc)),
              (''lastUpdateTime'', JString (lastUpdateTime doc))]"

text \<open>
  \<^verbatim>\<open>JSON.parse\<close> followed by the cast to \<^verbatim>\<open>ScraperCheckpoint\<close>. The code does not look
  at what it has parsed; the model reads documents whose properties are the ones of
  the two interfaces, in the order \<^verbatim>\<open>JSON.stringify\<close> writes them, and is \<open>None\<close> on any
  other JSON value: what the code does with such a file is outside the model. A key
  that occurs twice keeps its first place and its last value.
\<close>

definition parse_state :: "json \<Rightarrow> CheckpointState option" where
  "parse_state j =
     (case j of
        JObject [(k1, JString a), (k2, JString b), (k3, i), (k4, JNumber t), (k5, JString ts),
                 (k6, JBool c)] \<Rightarrow>
          if [k1, k2, k3, k4, k5, k6] =
             [''projectKey'', ''lastIssueKey'', ''lastIssueIndex'', ''totalIssuesProcessed'',
              ''timestamp'', ''completed'']
          then (case i of
                  JNumber n \<Rightarrow>
                    Some \<lparr>projectKey = a, lastIssueKey = b, lastIssueIndex = Some (Finite n),
                          totalIssuesProcessed = t, timestamp = ts, completed = c\<rparr>
                | JNull \<Rightarrow>
                    Some \<lparr>projectKey = a, lastIssueKey = b, lastIssueIndex = None,
                          totalIssuesProcessed = t, timestamp = ts, completed = c\<rparr>
                | _ \<Rightarrow> None)
          else None
      | _ \<Rightarrow> None)"

fun parse_projects ::
  "(string \<times> CheckpointState) list \<Rightarrow> (string \<times> json) list \<Rightarrow>
     (string \<times> CheckpointState) list option" where
  "parse_projects acc [] = Some acc"
| "parse_projects acc ((k, j) # rest) =
     (case parse_state j of
        None \<Rightarrow> None
      | Some s \<Rightarrow> parse_projects (AList.update k s acc) rest)"

definition JSON_parse :: "json \<Rightarrow> ScraperCheckpoint option" where
  "JSON_parse j =
     (case j of
        JObject [(k1, JObject ps), (k2, JString st), (k3, JString lu)] \<Rightarrow>
          if [k1, k2, k3] = [''projects'', ''startTime'', ''lastUpdateTime'']
          then map_option (\<lambda>qs. \<lparr>projects = qs, startTime = st, lastUpdateTime = lu\<rparr>)
                 (parse_projects [] ps)
          else None
      | _ \<Rightarrow> None)"

subsection \<open>The manager and its surroundings\<close>

text \<open>
  The environment fixes what the \<open>n\<close>-th \<^verbatim>\<open>new Date().toISOString()\<close> returns and
  whether the \<open>n\<close>-th \<^verbatim>\<open>fs.writeFileSync\<close> succeeds; the world counts both kinds of
  call and holds the file and the built-in objects of the process.
\<close>

record ledger_env =
  toISOString :: "nat \<Rightarrow> string"
  writeFileSync_ok :: "nat \<Rightarrow> bool"

record ledger_world =
  disk :: file_content
  clock_reads :: nat
  writes :: nat
  globals :: builtins

record CheckpointManager =
  checkpoint :: ScraperCheckpoint
  world :: ledger_world

definition new_Date :: "ledger_env \<Rightarrow> ledger_world \<Rightarrow> string \<times> ledger_world" where
  "new_Date e w = (toISOString e (clock_reads w), w\<lparr>clock_reads := Suc (clock_reads w)\<rparr>)"

definition writeFileSync :: "ledger_env \<Rightarrow> json \<Rightarrow> ledger_world \<Rightarrow> ledger_world" where
  "writeFileSync e data w =
     (if writeFileSync_ok e (writes w)
      then w\<lparr>disk := Json data, writes := Suc (writes w)\<rparr>
      else w\<lparr>writes := Suc (writes w)\<rparr>)"

definition empty_checkpoint :: "ledger_env \<Rightarrow> ledger_world \<Rightarrow> ScraperCheckpoint \<times> ledger_world" where
  "empty_checkpoint e w =
     (let (t1, w1) = new_Date e w;
          (t2, w2) = new_Date e w1
      in (\<lparr>projects = [], startTime = t1, lastUpdateTime = t2\<rparr>, w2))"

definition load :: "ledger_env \<Rightarrow> ledger_world \<Rightarrow> (ScraperCheckpoint \<times> ledger_world) option" where
  "load e w =
     (case disk w of
        Json data \<Rightarrow> map_option (\<lambda>doc. (doc, w)) (JSON_parse data)
      | _ \<Rightarrow> Some (empty_checkpoint e w))"

definition new_CheckpointManager :: "ledger_env \<Rightarrow> ledger_world \<Rightarrow> CheckpointManager option" where
  "new_CheckpointManager e w =
     map_option (\<lambda>(doc, w'). \<lparr>checkpoint = doc, world = w'\<rparr>) (load e w)"

definition save :: "ledger_env \<Rightarrow> CheckpointManager \<Rightarrow> CheckpointManager" where
  "save e m =
     (let (now, w1) = new_Date e (world m);
          doc = (checkpoint m)\<lparr>lastUpdateTime := now\<rparr>
      in \<lparr>checkpoint = doc, world = writeFileSync e (JSON_stringify doc) w1\<rparr>)"

definition own_record :: "CheckpointManager \<Rightarrow> string \<Rightarrow> CheckpointState option" where
  "own_record m key = map_of (projects (checkpoint m)) key"

definition get_slot :: "CheckpointManager \<Rightarrow> string \<Rightarrow> slot" where
  "get_slot m key = read_property (globals (world m)) (projects (checkpoint m)) key"

definition store :: "string \<Rightarrow> CheckpointState \<Rightarrow> CheckpointManager \<Rightarrow> CheckpointManager" where
  "store key s m =
     m\<lparr>checkpoint := (checkpoint m)\<lparr>projects := AList.update key s (projects (checkpoint m))\<rparr>\<rparr>"

text \<open>
  An assignment \<^verbatim>\<open>projects[projectKey].field = v\<close> where the slot holds a function
  object or \<^verbatim>\<open>Object.prototype\<close> writes the field onto that object.
\<close>

definition write_bag :: "slot \<Rightarrow> (bag \<Rightarrow> bag) \<Rightarrow> CheckpointManager \<Rightarrow> CheckpointManager" where
  "write_bag x g m =
     (let G = globals (world m);
          G' = (case x of
                  BuiltinFunction f \<Rightarrow>
                    G\<lparr>function_props := (function_props G)(f := g (function_props G f))\<rparr>
                | ObjectPrototype \<Rightarrow> G\<lparr>prototype_props := g (prototype_props G)\<rparr>
                | _ \<Rightarrow> G)
      in m\<lparr>world := (world m)\<lparr>globals := G'\<rparr>\<rparr>)"

definition get_totalIssuesProcessed :: "builtins \<Rightarrow> slot \<Rightarrow> js_number option" where
  "get_totalIssuesProcessed G x =
     (case x of
        Undefined \<Rightarrow> None
      | Own s \<Rightarrow> Some (Finite (totalIssuesProcessed s))
      | BuiltinFunction f \<Rightarrow>
          first_of (b_totalIssuesProcessed (function_props G f))
            (b_totalIssuesProcessed (prototype_props G))
      | ObjectPrototype \<Rightarrow> b_totalIssuesProcessed (prototype_props G)
      | Inherited p \<Rightarrow> b_totalIssuesProcessed (prototype_props G))"

text \<open>
  What \<^verbatim>\<open>x++\<close> stores: \<^verbatim>\<open>NaN\<close> for \<^verbatim>\<open>undefined\<close>, the next double otherwise. On a
  record's counter the next double is finite again.
\<close>

definition plus_plus :: "js_number option \<Rightarrow> js_number" where
  "plus_plus old = (case old of None \<Rightarrow> NaN | Some n \<Rightarrow> js_increment n)"

definition increment_count :: "int \<Rightarrow> int" where
  "increment_count t = (case js_increment (Finite t) of Finite v \<Rightarrow> v | _ \<Rightarrow> t)"

subsection \<open>The operations\<close>

definition initProject :: "ledger_env \<Rightarrow> string \<Rightarrow> CheckpointManager \<Rightarrow> CheckpointManager" where
  "initProject e key m =
     (if \<not> truthy (get_slot m key) then
        let (now, w1) = new_Date e (world m);
            fresh = \<lparr>projectKey = key, lastIssueKey = [], lastIssueIndex = Some (Finite (- 1)),
                     totalIssuesProcessed = 0, timestamp = now, completed = False\<rparr>
        in save e (store key fresh (m\<lparr>world := w1\<rparr>))
      else m)"

text \<open>
  The two operations that assign to a field of \<^verbatim>\<open>projects[projectKey]\<close> throw a
  \<^verbatim>\<open>TypeError\<close> where that value is a primitive or \<^verbatim>\<open>undefined\<close> (the class is strict
  code); the first assignment throws, so nothing has changed by then and \<^verbatim>\<open>save\<close> is
  not reached.
\<close>

datatype outcome = Returned | TypeError

definition updateProgress ::
  "ledger_env \<Rightarrow> string \<Rightarrow> string \<Rightarrow> js_number \<Rightarrow> CheckpointManager \<Rightarrow>
     outcome \<times> CheckpointManager" where
  "updateProgress e key issueKey issueIndex m =
     (let m1 = (if \<not> truthy (get_slot m key) then initProject e key m else m);
          x = get_slot m1 key
      in case x of
           Own s \<Rightarrow>
             let (now, w2) = new_Date e (world m1);
                 s' = s\<lparr>lastIssueKey := issueKey, lastIssueIndex := Some issueIndex,
                        totalIssuesProcessed := increment_count (totalIssuesProcessed s),
                        timestamp := now\<rparr>
             in (Returned, save e (store key s' (m1\<lparr>world := w2\<rparr>)))
         | Undefined \<Rightarrow> (TypeError, m1)
         | Inherited p \<Rightarrow> (TypeError, m1)
         | _ \<Rightarrow>
             let old = get_totalIssuesProcessed (globals (world m1)) x;
                 (now, w2) = new_Date e (world m1)
             in (Returned,
                 save e (write_bag x
                   (\<lambda>b. b\<lparr>b_lastIssueKey := Some issueKey, b_lastIssueIndex := Some issueIndex,
                           b_totalIssuesProcessed := Some (plus_plus old),
                           b_timestamp := Some now\<rparr>)
                   (m1\<lparr>world := w2\<rparr>))))"

definition markProjectCompleted ::
  "ledger_env \<Rightarrow> string \<Rightarrow> CheckpointManager \<Rightarrow> outcome \<times> CheckpointManager" where
  "markProjectCompleted e key m =
     (let x = get_slot m key
      in if truthy x then
           (case x of
              Own s \<Rightarrow> (Returned, save e (store key (s\<lparr>completed := True\<rparr>) m))
            | Undefined \<Rightarrow> (TypeError, m)
            | Inherited p \<Rightarrow> (TypeError, m)
            | _ \<Rightarrow> (Returned, save e (write_bag x (\<lambda>b. b\<lparr>b_completed := Some True\<rparr>) m)))
         else (Returned, m))"

definition clear :: "ledger_env \<Rightarrow> CheckpointManager \<Rightarrow> CheckpointManager" where
  "clear e m =
     (let (doc, w') = empty_checkpoint e (world m)
      in save e \<lparr>checkpoint = doc, world = w'\<rparr>)"

text \<open>
  The queries are methods of the same object, so each is a state transformer too: it
  returns its answer together with the manager it leaves behind.
\<close>

definition getLastIndex :: "string \<Rightarrow> CheckpointManager \<Rightarrow> js_number \<times> CheckpointManager" where
  "getLastIndex key m =
     (case get_lastIssueIndex (globals (world m)) (get_slot m key) of
        Some n \<Rightarrow> n
      | None \<Rightarrow> Finite (- 1), m)"

definition isProjectCompleted :: "string \<Rightarrow> CheckpointManager \<Rightarrow> bool \<times> CheckpointManager" where
  "isProjectCompleted key m =
     (case get_completed (globals (world m)) (get_slot m key) of
        Some b \<Rightarrow> b
      | None \<Rightarrow> False, m)"

text \<open>\<^verbatim>\<open>getProjectState\<close> returns the slot's value, or \<^verbatim>\<open>null\<close> (here \<open>Undefined\<close>).\<close>

definition getProjectState :: "string \<Rightarrow> CheckpointManager \<Rightarrow> slot \<times> CheckpointManager" where
  "getProjectState key m = (if truthy (get_slot m key) then get_slot m key else Undefined, m)"

definition getAllStates :: "CheckpointManager \<Rightarrow> ScraperCheckpoint \<times> CheckpointManager" where
  "getAllStates m = (checkpoint m, m)"

definition Object_values :: "(string \<times> 'v) list \<Rightarrow> 'v list" where
  "Object_values ps = map snd (own_properties ps)"

definition js_plus :: "js_number \<Rightarrow> int \<Rightarrow> js_number" where
  "js_plus x t = (case x of Finite n \<Rightarrow> double_of_int (n + t) | _ \<Rightarrow> x)"

record Summary =
  totalProjects :: nat
  completedProjects :: nat
  summaryIssuesProcessed :: js_number
  summaryProjects :: "(string \<times> int \<times> bool) list"

definition getSummary :: "CheckpointManager \<Rightarrow> Summary \<times> CheckpointManager" where
  "getSummary m =
     (let ps = Object_values (projects (checkpoint m))
      in (\<lparr>totalProjects = length ps,
           completedProjects = length (filter completed ps),
           summaryIssuesProcessed =
             foldl (\<lambda>sum p. js_plus sum (totalIssuesProcessed p)) (Finite 0) ps,
           summaryProjects = map (\<lambda>p. (projectKey p, totalIssuesProcessed p, completed p)) ps\<rparr>,
          m))"

text \<open>
  The public operations as one datatype, so that a history of calls is a list. A call
  that throws leaves the manager as it was, and the history goes on, as the
  orchestrator's \<^verbatim>\<open>try\<close> blocks make it.
\<close>

datatype ledger_op =
    InitProject string
  | UpdateProgress string string js_number
  | MarkProjectCompleted string
  | GetLastIndex string
  | IsProjectCompleted string
  | GetProjectState string
  | GetAllStates
  | Clear
  | GetSummary

fun apply_op :: "ledger_env \<Rightarrow> ledger_op \<Rightarrow> CheckpointManager \<Rightarrow> CheckpointManager" where
  "apply_op e (InitProject key) m = initProject e key m"
| "apply_op e (UpdateProgress key issueKey issueIndex) m =
     snd (updateProgress e key issueKey issueIndex m)"
| "apply_op e (MarkProjectCompleted key) m = snd (markProjectCompleted e key m)"
| "apply_op e (GetLastIndex key) m = snd (getLastIndex key m)"
| "apply_op e (IsProjectCompleted key) m = snd (isProjectCompleted key m)"
| "apply_op e (GetProjectState key) m = snd (getProjectState key m)"
| "apply_op e GetAllStates m = snd (getAllStates m)"
| "apply_op e Clear m = clear e m"
| "apply_op e GetSummary m = snd (getSummary m)"

fun run :: "ledger_env \<Rightarrow> ledger_op list \<Rightarrow> CheckpointManager \<Rightarrow> CheckpointManager" where
  "run e [] m = m"
| "run e (a # as) m = run e as (apply_op e a m)"

text \<open>A concrete environment and the manager a new process starts on an empty directory.\<close>

definition ex_env :: ledger_env where
  "ex_env = \<lparr>toISOString = (\<lambda>n. ''2025-01-01T00:00:00.000Z''), writeFileSync_ok = (\<lambda>n. True)\<rparr>"

definition new_process :: ledger_world where
  "new_process = \<lparr>disk = Absent, clock_reads = 0, writes = 0, globals = fresh_builtins\<rparr>"

definition ex_fresh :: CheckpointManager where
  "ex_fresh =
     \<lparr>checkpoint = \<lparr>projects = [], startTime = ''2025-01-01T00:00:00.000Z'',
        lastUpdateTime = ''2025-01-01T00:00:00.000Z''\<rparr>,
      world = new_process\<lparr>clock_reads := 2\<rparr>\<rparr>"

subsection \<open>Notions used to state the claims about the ledger\<close>

text \<open>
  What comes back from the file. \<^verbatim>\<open>JSON.parse\<close> of what \<^verbatim>\<open>JSON.stringify\<close> wrote
  gives each own property of \<^verbatim>\<open>projects\<close> in the order it was written, and in each
  record an index of \<^verbatim>\<open>null\<close> unless the index was a finite number (lemma
  \<open>JSON_round_trip\<close>).
\<close>

definition persisted_state :: "CheckpointState \<Rightarrow> CheckpointState" where
  "persisted_state s =
     s\<lparr>lastIssueIndex := (case lastIssueIndex s of Some (Finite n) \<Rightarrow> Some (Finite n) | _ \<Rightarrow> None)\<rparr>"

definition reloaded :: "ScraperCheckpoint \<Rightarrow> ScraperCheckpoint" where
  "reloaded doc =
     doc\<lparr>projects := map (\<lambda>p. (fst p, persisted_state (snd p))) (own_properties (projects doc))\<rparr>"

text \<open>
  A name is \<open>ordinary\<close> when no property of \<^verbatim>\<open>Object.prototype\<close> can have it: it is
  not \<^verbatim>\<open>__proto__\<close>, not one of the eleven methods, and not one of the five fields that
  the ledger may have written onto \<^verbatim>\<open>Object.prototype\<close>. A slot is plain when it holds
  an own record or its name is ordinary; \<^verbatim>\<open>projects[key]\<close> is then that record or
  \<^verbatim>\<open>undefined\<close>, whatever the built-in objects hold. \<open>fresh_state\<close> is the record
  that \<^verbatim>\<open>initProject\<close> creates, and \<open>prepared\<close> the manager after the first
  statement of \<^verbatim>\<open>updateProgress\<close>.
\<close>

definition field_names :: "string list" where
  "field_names =
     [''lastIssueKey'', ''lastIssueIndex'', ''totalIssuesProcessed'', ''timestamp'', ''completed'']"

definition ordinary :: "string \<Rightarrow> bool" where
  "ordinary key \<longleftrightarrow>
     key \<noteq> ''__proto__'' \<and> key \<notin> set Object_prototype_functions \<and> key \<notin> set field_names"

definition plain_slot :: "CheckpointManager \<Rightarrow> string \<Rightarrow> bool" where
  "plain_slot m key \<longleftrightarrow> own_record m key \<noteq> None \<or> ordinary key"

definition fresh_state :: "string \<Rightarrow> string \<Rightarrow> CheckpointState" where
  "fresh_state key now =
     \<lparr>projectKey = key, lastIssueKey = [], lastIssueIndex = Some (Finite (- 1)),
      totalIssuesProcessed = 0, timestamp = now, completed = False\<rparr>"

definition prepared :: "ledger_env \<Rightarrow> string \<Rightarrow> CheckpointManager \<Rightarrow> CheckpointManager" where
  "prepared e key m = (if \<not> truthy (get_slot m key) then initProject e key m else m)"

text \<open>
  A history is \<open>ascending\<close> for a project when each \<^verbatim>\<open>updateProgress\<close> call for it
  passes an index that is not below the last index the ledger holds at that moment, as
  the orchestrator's calls do. \<open>updates key a\<close> says that the call \<open>a\<close> is an
  \<^verbatim>\<open>updateProgress\<close> for \<open>key\<close>. Two histories on the fresh manager follow: some
  progress, and a completed project.
\<close>

fun ascending :: "ledger_env \<Rightarrow> string \<Rightarrow> ledger_op list \<Rightarrow> CheckpointManager \<Rightarrow> bool" where
  "ascending e key [] m = True"
| "ascending e key (a # as) m =
     ((case a of
         UpdateProgress k issueKey issueIndex \<Rightarrow>
           k = key \<longrightarrow> not_below (fst (getLastIndex key m)) issueIndex
       | _ \<Rightarrow> True) \<and>
      ascending e key as (apply_op e a m))"

fun updates :: "string \<Rightarrow> ledger_op \<Rightarrow> bool" where
  "updates key (UpdateProgress k issueKey issueIndex) = (k = key)"
| "updates key _ = False"

definition after_progress :: CheckpointManager where
  "after_progress = run ex_env [UpdateProgress ''X'' ''X-5'' (Finite 4)] ex_fresh"

definition after_completion :: CheckpointManager where
  "after_completion = run ex_env [InitProject ''X'', MarkProjectCompleted ''X''] ex_fresh"

text \<open>
  An index survives the file when it is a finite number or \<^verbatim>\<open>null\<close>. Three managers
  on the fresh one: after progress with a finite index, after progress with the index
  \<^verbatim>\<open>NaN\<close>, and the manager constructed on the file that the latter wrote.
\<close>

definition survives_JSON :: "js_number option \<Rightarrow> bool" where
  "survives_JSON i \<longleftrightarrow> (case i of None \<Rightarrow> True | Some (Finite n) \<Rightarrow> True | _ \<Rightarrow> False)"

definition kafka_progress :: CheckpointManager where
  "kafka_progress = apply_op ex_env (UpdateProgress ''KAFKA'' ''KAFKA-5'' (Finite 4)) ex_fresh"

definition nan_progress :: CheckpointManager where
  "nan_progress = snd (updateProgress ex_env ''X'' ''X-1'' NaN ex_fresh)"

definition nan_reloaded :: CheckpointManager where
  "nan_reloaded = \<lparr>checkpoint = reloaded (checkpoint nan_progress), world = world nan_progress\<rparr>"

text \<open>
  The manager after \<^verbatim>\<open>markProjectCompleted('constructor')\<close> on the fresh one.
\<close>

definition after_constructor :: CheckpointManager where
  "after_constructor = snd (markProjectCompleted ex_env ''constructor'' ex_fresh)"

subsection \<open>Basic facts about the ledger operations\<close>

lemma ex_fresh_constructed: "new_CheckpointManager ex_env new_process = Some ex_fresh"
  by (simp add: new_CheckpointManager_def load_def empty_checkpoint_def new_Date_def
      new_process_def ex_env_def ex_fresh_def)

lemma parse_state_json: "parse_state (state_json s) = Some (persisted_state s)"
proof (cases "lastIssueIndex s")
  case None
  then show ?thesis
    by (simp add: parse_state_def state_json_def index_json_def persisted_state_def)
next
  case (Some n)
  then show ?thesis
    by (cases n) (simp_all add: parse_state_def state_json_def index_json_def persisted_state_def)
qed

lemma update_fresh_key: "k \<notin> fst ` set acc \<Longrightarrow> AList.update k v acc = acc @ [(k, v)]"
  by (induction acc) auto

lemma parse_projects_written:
  "distinct (map fst xs) \<Longrightarrow> fst ` set xs \<inter> fst ` set acc = {} \<Longrightarrow>
   parse_projects acc (map (\<lambda>p. (fst p, state_json (snd p))) xs) =
     Some (acc @ map (\<lambda>p. (fst p, persisted_state (snd p))) xs)"
proof (induction xs arbitrary: acc)
  case Nil
  then show ?case by simp
next
  case (Cons p xs)
  have fresh: "fst p \<notin> fst ` set acc" using Cons.prems(2) by auto
  have d: "distinct (map fst xs)" using Cons.prems(1) by simp
  have disj: "fst ` set xs \<inter> fst ` set (acc @ [(fst p, persisted_state (snd p))]) = {}"
    using Cons.prems by auto
  show ?case
    using Cons.IH [OF d disj]
    by (simp add: parse_state_json update_fresh_key [OF fresh])
qed

lemma set_own_properties: "set (own_properties ps) = set (AList.clearjunk ps)"
  by (auto simp add: own_properties_def Let_def)

lemma distinct_own_properties: "distinct (map fst (own_properties ps))"
proof -
  let ?qs = "AList.clearjunk ps"
  let ?a = "filter (\<lambda>p. is_array_index (fst p)) ?qs"
  let ?b = "filter (\<lambda>p. \<not> is_array_index (fst p)) ?qs"
  have dq: "distinct (map fst ?qs)" by simp
  then have da: "distinct (map fst ?a)" and db: "distinct (map fst ?b)"
    by (simp_all add: distinct_map_filter)
  have "distinct (map fst (sort_key (\<lambda>p. decimal_value (fst p)) ?a))"
    using da by (simp add: distinct_map)
  moreover have "fst ` set ?a \<inter> fst ` set ?b = {}"
    by auto
  ultimately show ?thesis
    using db by (simp add: own_properties_def Let_def)
qed

lemma map_of_own_properties: "map_of (own_properties ps) = map_of ps"
proof -
  have "map_of (own_properties ps) = map_of (AList.clearjunk ps)"
    using distinct_own_properties [of ps] set_own_properties [of ps]
    by (simp add: map_of_inject_set)
  then show ?thesis by (simp add: map_of_clearjunk)
qed

lemma JSON_round_trip: "JSON_parse (JSON_stringify doc) = Some (reloaded doc)"
  using parse_projects_written [of "own_properties (projects doc)" "[]"]
  by (simp add: JSON_parse_def JSON_stringify_def reloaded_def distinct_own_properties)

lemma map_of_map_snd:
  "map_of (map (\<lambda>p. (fst p, g (snd p))) xs) k = map_option g (map_of xs k)"
  by (induction xs) auto

lemma map_of_reloaded:
  "map_of (projects (reloaded doc)) key = map_option persisted_state (map_of (projects doc) key)"
  by (simp add: reloaded_def map_of_map_snd map_of_own_properties)

lemma own_record_store:
  "own_record (store k s m) k' = (if k' = k then Some s else own_record m k')"
  by (simp add: own_record_def store_def update_conv')

lemma world_store: "world (store k s m) = world m"
  by (simp add: store_def)

lemma own_record_world_update: "own_record (m\<lparr>world := w\<rparr>) k = own_record m k"
  by (simp add: own_record_def)

lemma own_record_save: "own_record (save e m) k = own_record m k"
  by (simp add: own_record_def save_def new_Date_def Let_def)

lemma globals_save: "globals (world (save e m)) = globals (world m)"
  by (simp add: save_def new_Date_def writeFileSync_def Let_def)

lemma own_record_write_bag: "own_record (write_bag x g m) k = own_record m k"
  by (simp add: own_record_def write_bag_def Let_def)

lemma checkpoint_write_bag: "checkpoint (write_bag x g m) = checkpoint m"
  by (simp add: write_bag_def Let_def)

lemma writes_write_bag: "writes (world (write_bag x g m)) = writes (world m)"
  by (simp add: write_bag_def Let_def)

lemma writes_save: "writes (world (save e m)) = Suc (writes (world m))"
  by (simp add: save_def new_Date_def writeFileSync_def Let_def)

lemma disk_save:
  "disk (world (save e m)) =
     (if writeFileSync_ok e (writes (world m))
      then Json (JSON_stringify (checkpoint (save e m)))
      else disk (world m))"
  by (simp add: save_def new_Date_def writeFileSync_def Let_def)

lemma get_slot_own: "own_record m key = Some s \<Longrightarrow> get_slot m key = Own s"
  by (simp add: get_slot_def read_property_def own_record_def)

lemma get_slot_ordinary:
  "ordinary key \<Longrightarrow> own_record m key = None \<Longrightarrow> get_slot m key = Undefined"
  by (simp add: get_slot_def read_property_def own_record_def ordinary_def inherited_field_def
      field_names_def)

lemma get_slot_plain:
  "plain_slot m key \<Longrightarrow>
   get_slot m key = (case own_record m key of Some s \<Rightarrow> Own s | None \<Rightarrow> Undefined)"
  by (auto simp add: plain_slot_def get_slot_own get_slot_ordinary split: option.splits)

lemma falsy_no_record: "\<not> truthy (get_slot m key) \<Longrightarrow> own_record m key = None"
  by (cases "own_record m key") (simp_all add: get_slot_own)

lemma initProject_eq:
  "initProject e key m =
     (if truthy (get_slot m key) then m
      else save e (store key (fresh_state key (toISOString e (clock_reads (world m))))
             (m\<lparr>world := (world m)\<lparr>clock_reads := Suc (clock_reads (world m))\<rparr>\<rparr>)))"
  by (simp add: initProject_def new_Date_def fresh_state_def)

lemma own_record_initProject:
  "own_record (initProject e key m) k =
     (if k = key \<and> \<not> truthy (get_slot m key)
      then Some (fresh_state key (toISOString e (clock_reads (world m))))
      else own_record m k)"
  by (simp add: initProject_eq own_record_save own_record_store own_record_world_update)

lemma globals_initProject: "globals (world (initProject e key m)) = globals (world m)"
  by (simp add: initProject_eq globals_save world_store)

lemma writes_initProject:
  "writes (world (initProject e key m)) =
     (if truthy (get_slot m key) then writes (world m) else Suc (writes (world m)))"
  by (simp add: initProject_eq writes_save world_store)

lemma get_slot_initProject:
  "\<not> truthy (get_slot m key) \<Longrightarrow>
   get_slot (initProject e key m) key =
     Own (fresh_state key (toISOString e (clock_reads (world m))))"
  by (rule get_slot_own) (simp add: own_record_initProject)

lemma own_record_prepared_other: "k \<noteq> key \<Longrightarrow> own_record (prepared e key m) k = own_record m k"
  by (simp add: prepared_def own_record_initProject)

lemma get_slot_prepared_plain:
  "plain_slot m key \<Longrightarrow>
   get_slot (prepared e key m) key =
     Own (case own_record m key of
            Some s \<Rightarrow> s
          | None \<Rightarrow> fresh_state key (toISOString e (clock_reads (world m))))"
  by (cases "own_record m key")
     (simp_all add: prepared_def get_slot_plain get_slot_initProject)

lemma get_slot_prepared_defined: "get_slot (prepared e key m) key \<noteq> Undefined"
proof (cases "truthy (get_slot m key)")
  case True
  then show ?thesis by (auto simp add: prepared_def)
next
  case False
  then show ?thesis by (simp add: prepared_def get_slot_initProject)
qed

lemma prepared_inherited:
  "get_slot (prepared e key m) key = Inherited p \<Longrightarrow> prepared e key m = m"
  by (cases "truthy (get_slot m key)") (simp_all add: prepared_def get_slot_initProject)

lemma updateProgress_eq:
  "updateProgress e key issueKey issueIndex m =
     (let m1 = prepared e key m;
          x = get_slot m1 key;
          now = toISOString e (clock_reads (world m1));
          m2 = m1\<lparr>world := (world m1)\<lparr>clock_reads := Suc (clock_reads (world m1))\<rparr>\<rparr>
      in case x of
           Own s \<Rightarrow>
             (Returned,
              save e (store key
                (s\<lparr>lastIssueKey := issueKey, lastIssueIndex := Some issueIndex,
                   totalIssuesProcessed := increment_count (totalIssuesProcessed s),
                   timestamp := now\<rparr>) m2))
         | Undefined \<Rightarrow> (TypeError, m1)
         | Inherited p \<Rightarrow> (TypeError, m1)
         | _ \<Rightarrow>
             (Returned,
              save e (write_bag x
                (\<lambda>b. b\<lparr>b_lastIssueKey := Some issueKey, b_lastIssueIndex := Some issueIndex,
                        b_totalIssuesProcessed :=
                          Some (plus_plus (get_totalIssuesProcessed (globals (world m1)) x)),
                        b_timestamp := Some now\<rparr>) m2)))"
  by (cases "get_slot (if \<not> truthy (get_slot m key) then initProject e key m else m) key")
     (simp_all add: updateProgress_def prepared_def new_Date_def Let_def)

lemma own_record_updateProgress_other:
  "k \<noteq> key \<Longrightarrow> own_record (snd (updateProgress e key issueKey issueIndex m)) k = own_record m k"
  by (cases "get_slot (prepared e key m) key")
     (simp_all add: updateProgress_eq Let_def own_record_save own_record_store
       own_record_write_bag own_record_world_update own_record_prepared_other)

lemma updateProgress_plain:
  assumes "plain_slot m key"
  shows "fst (updateProgress e key issueKey issueIndex m) = Returned"
    and "\<exists>s now. own_record (snd (updateProgress e key issueKey issueIndex m)) key =
           Some (s\<lparr>lastIssueKey := issueKey, lastIssueIndex := Some issueIndex,
                   totalIssuesProcessed := increment_count (totalIssuesProcessed s),
                   timestamp := now\<rparr>) \<and>
           (own_record m key = Some s \<or>
            own_record m key = None \<and>
            s = fresh_state key (toISOString e (clock_reads (world m))))"
proof -
  let ?s = "case own_record m key of
              Some s \<Rightarrow> s
            | None \<Rightarrow> fresh_state key (toISOString e (clock_reads (world m)))"
  have slot: "get_slot (prepared e key m) key = Own ?s"
    by (rule get_slot_prepared_plain [OF assms])
  show "fst (updateProgress e key issueKey issueIndex m) = Returned"
    by (simp add: updateProgress_eq Let_def slot)
  have "own_record (snd (updateProgress e key issueKey issueIndex m)) key =
      Some (?s\<lparr>lastIssueKey := issueKey, lastIssueIndex := Some issueIndex,
                   totalIssuesProcessed := increment_count (totalIssuesProcessed ?s),
                   timestamp := toISOString e (clock_reads (world (prepared e key m)))\<rparr>)"
    by (simp add: updateProgress_eq Let_def slot own_record_save own_record_store)
  moreover have "own_record m key = Some ?s \<or>
      own_record m key = None \<and> ?s = fresh_state key (toISOString e (clock_reads (world m)))"
    by (cases "own_record m key") simp_all
  ultimately show "\<exists>s now. own_record (snd (updateProgress e key issueKey issueIndex m)) key =
           Some (s\<lparr>lastIssueKey := issueKey, lastIssueIndex := Some issueIndex,
                   totalIssuesProcessed := increment_count (totalIssuesProcessed s),
                   timestamp := now\<rparr>) \<and>
           (own_record m key = Some s \<or>
            own_record m key = None \<and>
            s = fresh_state key (toISOString e (clock_reads (world m))))"
    by blast
qed

lemma markProjectCompleted_eq:
  "markProjectCompleted e key m =
     (case get_slot m key of
        Own s \<Rightarrow> (Returned, save e (store key (s\<lparr>completed := True\<rparr>) m))
      | Undefined \<Rightarrow> (Returned, m)
      | Inherited p \<Rightarrow> (if truthy (Inherited p) then (TypeError, m) else (Returned, m))
      | x \<Rightarrow> (Returned, save e (write_bag x (\<lambda>b. b\<lparr>b_completed := Some True\<rparr>) m)))"
  by (simp add: markProjectCompleted_def Let_def split: slot.splits)

lemma own_record_markProjectCompleted_other:
  "k \<noteq> key \<Longrightarrow> own_record (snd (markProjectCompleted e key m)) k = own_record m k"
  by (cases "get_slot m key")
     (simp_all add: markProjectCompleted_eq own_record_save own_record_store own_record_write_bag)

lemma own_record_markProjectCompleted_plain:
  "plain_slot m key \<Longrightarrow>
   own_record (snd (markProjectCompleted e key m)) key =
     map_option (\<lambda>s. s\<lparr>completed := True\<rparr>) (own_record m key)"
  by (cases "own_record m key")
     (simp_all add: markProjectCompleted_eq get_slot_plain own_record_save own_record_store)

lemma own_record_clear: "own_record (clear e m) k = None"
  by (simp add: clear_def empty_checkpoint_def new_Date_def Let_def own_record_save)
     (simp add: own_record_def)

lemma queries_unchanged:
  "snd (getLastIndex k m) = m" "snd (isProjectCompleted k m) = m"
  "snd (getProjectState k m) = m" "snd (getAllStates m) = m" "snd (getSummary m) = m"
  by (simp_all add: getLastIndex_def isProjectCompleted_def getProjectState_def
      getAllStates_def getSummary_def Let_def)

lemma getLastIndex_plain:
  "plain_slot m key \<Longrightarrow>
   fst (getLastIndex key m) =
     (case own_record m key of
        Some s \<Rightarrow> (case lastIssueIndex s of Some n \<Rightarrow> n | None \<Rightarrow> Finite (- 1))
      | None \<Rightarrow> Finite (- 1))"
  by (simp add: getLastIndex_def get_slot_plain get_lastIssueIndex_def split: option.splits)

lemma isProjectCompleted_plain:
  "plain_slot m key \<Longrightarrow>
   fst (isProjectCompleted key m) =
     (case own_record m key of Some s \<Rightarrow> completed s | None \<Rightarrow> False)"
  by (simp add: isProjectCompleted_def get_slot_plain get_completed_def split: option.splits)

lemma js_less_trans: "js_less a b \<Longrightarrow> js_less b c \<Longrightarrow> js_less a c"
  by (cases a; cases b; cases c) simp_all

lemma not_below_refl: "not_below a a"
  by (simp add: not_below_def)

lemma not_below_trans: "not_below a b \<Longrightarrow> not_below b c \<Longrightarrow> not_below a c"
  by (auto simp add: not_below_def intro: js_less_trans)

lemma own_record_step:
  "a \<noteq> Clear \<Longrightarrow> \<not> updates key a \<Longrightarrow> a \<noteq> InitProject key \<Longrightarrow> a \<noteq> MarkProjectCompleted key \<Longrightarrow>
   own_record (apply_op e a m) key = own_record m key"
  by (cases a)
     (auto simp add: own_record_initProject own_record_updateProgress_other
       own_record_markProjectCompleted_other queries_unchanged)

lemma own_record_kept:
  assumes "a \<noteq> Clear" and "own_record m key \<noteq> None"
  shows "own_record (apply_op e a m) key \<noteq> None"
proof (cases "updates key a \<or> a = InitProject key \<or> a = MarkProjectCompleted key")
  case False
  with assms show ?thesis by (simp add: own_record_step)
next
  case True
  have plain: "plain_slot m key" using assms(2) by (simp add: plain_slot_def)
  from True show ?thesis
  proof (elim disjE)
    assume "updates key a"
    then obtain ik i where "a = UpdateProgress key ik i" by (cases a) auto
    then show ?thesis
      using updateProgress_plain(2) [OF plain, of e ik i] by auto
  next
    assume "a = InitProject key"
    then show ?thesis using assms(2) by (auto simp add: own_record_initProject)
  next
    assume "a = MarkProjectCompleted key"
    then show ?thesis
      using assms(2) by (auto simp add: own_record_markProjectCompleted_plain [OF plain])
  qed
qed

lemma plain_slot_kept: "a \<noteq> Clear \<Longrightarrow> plain_slot m key \<Longrightarrow> plain_slot (apply_op e a m) key"
  using own_record_kept [of a m key e] by (auto simp add: plain_slot_def)

lemma getLastIndex_step:
  assumes "a \<noteq> Clear" and "plain_slot m key"
  shows "fst (getLastIndex key (apply_op e a m)) =
     (case a of
        UpdateProgress k issueKey issueIndex \<Rightarrow>
          if k = key then issueIndex else fst (getLastIndex key m)
      | _ \<Rightarrow> fst (getLastIndex key m))"
proof -
  note after = getLastIndex_plain [OF plain_slot_kept [OF assms, of e]]
  note before = getLastIndex_plain [OF assms(2)]
  show ?thesis
  proof (cases "updates key a \<or> a = InitProject key \<or> a = MarkProjectCompleted key")
    case False
    then have "own_record (apply_op e a m) key = own_record m key"
      using assms(1) by (simp add: own_record_step)
    with False show ?thesis
      unfolding after before by (cases a) auto
  next
    case True
    then show ?thesis
    proof (elim disjE)
      assume "updates key a"
      then obtain ik i where a: "a = UpdateProgress key ik i" by (cases a) auto
      show ?thesis
        unfolding after using updateProgress_plain(2) [OF assms(2), of e ik i]
        by (auto simp add: a)
    next
      assume a: "a = InitProject key"
      show ?thesis
        unfolding after before
        by (cases "own_record m key")
           (auto simp add: a own_record_initProject fresh_state_def get_slot_own)
    next
      assume a: "a = MarkProjectCompleted key"
      show ?thesis
        unfolding after before
        by (cases "own_record m key")
           (simp_all add: a own_record_markProjectCompleted_plain [OF assms(2)])
    qed
  qed
qed

lemma completed_has_record:
  "plain_slot m key \<Longrightarrow> fst (isProjectCompleted key m) \<Longrightarrow>
   \<exists>s. own_record m key = Some s \<and> completed s"
  by (cases "own_record m key") (simp_all add: isProjectCompleted_plain)

lemma isProjectCompleted_step:
  assumes "a \<noteq> Clear" and "plain_slot m key" and "fst (isProjectCompleted key m)"
  shows "fst (isProjectCompleted key (apply_op e a m))"
proof -
  obtain s where s: "own_record m key = Some s" "completed s"
    using completed_has_record [OF assms(2,3)] by auto
  note after = isProjectCompleted_plain [OF plain_slot_kept [OF assms(1,2), of e]]
  show ?thesis
  proof (cases "updates key a \<or> a = InitProject key \<or> a = MarkProjectCompleted key")
    case False
    then have "own_record (apply_op e a m) key = own_record m key"
      using assms(1) by (simp add: own_record_step)
    then show ?thesis unfolding after by (simp add: s)
  next
    case True
    then show ?thesis
    proof (elim disjE)
      assume "updates key a"
      then obtain ik i where a: "a = UpdateProgress key ik i" by (cases a) auto
      show ?thesis
        unfolding after using updateProgress_plain(2) [OF assms(2), of e ik i] s
        by (auto simp add: a)
    next
      assume a: "a = InitProject key"
      show ?thesis
        unfolding after using s by (simp add: a own_record_initProject get_slot_own)
    next
      assume a: "a = MarkProjectCompleted key"
      show ?thesis
        unfolding after using s
        by (simp add: a own_record_markProjectCompleted_plain [OF assms(2)])
    qed
  qed
qed

lemma completed_record_step:
  assumes "a \<noteq> Clear" and "\<not> updates key a" and "plain_slot m key"
    and "fst (isProjectCompleted key m)"
  shows "own_record (apply_op e a m) key = own_record m key"
proof -
  obtain s where s: "own_record m key = Some s" "completed s"
    using completed_has_record [OF assms(3,4)] by auto
  show ?thesis
  proof (cases "a = InitProject key \<or> a = MarkProjectCompleted key")
    case False
    with assms(1,2) show ?thesis by (simp add: own_record_step)
  next
    case True
    then show ?thesis
    proof
      assume a: "a = InitProject key"
      show ?thesis using s by (simp add: a own_record_initProject get_slot_own)
    next
      assume a: "a = MarkProjectCompleted key"
      show ?thesis
        using s by (simp add: a own_record_markProjectCompleted_plain [OF assms(3)])
    qed
  qed
qed

lemma lastIndex_ascending:
  "Clear \<notin> set ops \<Longrightarrow> plain_slot m key \<Longrightarrow> ascending e key ops m \<Longrightarrow>
   not_below (fst (getLastIndex key m)) (fst (getLastIndex key (run e ops m)))"
proof (induction ops arbitrary: m)
  case Nil
  then show ?case by (simp add: not_below_refl)
next
  case (Cons a ops)
  from Cons.prems have a: "a \<noteq> Clear" and rest: "Clear \<notin> set ops"
    and asc: "ascending e key ops (apply_op e a m)" by auto
  have plain: "plain_slot (apply_op e a m) key"
    using a Cons.prems(2) by (rule plain_slot_kept)
  have first: "case a of
      UpdateProgress k issueKey issueIndex \<Rightarrow>
        k = key \<longrightarrow> not_below (fst (getLastIndex key m)) issueIndex
    | _ \<Rightarrow> True"
    using Cons.prems(3) by simp
  have "not_below (fst (getLastIndex key m)) (fst (getLastIndex key (apply_op e a m)))"
    unfolding getLastIndex_step [OF a Cons.prems(2)] using first
    by (cases a) (simp_all add: not_below_refl)
  moreover have "not_below (fst (getLastIndex key (apply_op e a m)))
      (fst (getLastIndex key (run e ops (apply_op e a m))))"
    by (rule Cons.IH [OF rest plain asc])
  ultimately show ?case
    using not_below_trans by auto
qed

lemma completed_stays:
  "Clear \<notin> set ops \<Longrightarrow> plain_slot m key \<Longrightarrow> fst (isProjectCompleted key m) \<Longrightarrow>
   fst (isProjectCompleted key (run e ops m))"
proof (induction ops arbitrary: m)
  case Nil
  then show ?case by simp
next
  case (Cons a ops)
  then have a: "a \<noteq> Clear" by auto
  show ?case
    using Cons.prems Cons.IH [of "apply_op e a m"] plain_slot_kept [OF a Cons.prems(2), of e]
      isProjectCompleted_step [OF a Cons.prems(2,3), of e]
    by simp
qed

lemma completed_record_frozen:
  "Clear \<notin> set ops \<Longrightarrow> list_all (\<lambda>a. \<not> updates key a) ops \<Longrightarrow> plain_slot m key \<Longrightarrow>
   fst (isProjectCompleted key m) \<Longrightarrow> own_record (run e ops m) key = own_record m key"
proof (induction ops arbitrary: m)
  case Nil
  then show ?case by simp
next
  case (Cons a ops)
  then have a: "a \<noteq> Clear" "\<not> updates key a" by auto
  have same: "own_record (apply_op e a m) key = own_record m key"
    using a Cons.prems(3,4) by (rule completed_record_step)
  have "fst (isProjectCompleted key (apply_op e a m))"
    using a(1) Cons.prems(3,4) by (rule isProjectCompleted_step)
  moreover have "plain_slot (apply_op e a m) key"
    using a(1) Cons.prems(3) by (rule plain_slot_kept)
  ultimately show ?case using Cons by (simp add: same)
qed

lemma ex_fresh_facts:
  "own_record ex_fresh k = None"
  "globals (world ex_fresh) = fresh_builtins"
  "writes (world ex_fresh) = 0"
  "clock_reads (world ex_fresh) = 2"
  by (simp_all add: ex_fresh_def new_process_def own_record_def)

lemma ex_env_facts: "toISOString ex_env n = ''2025-01-01T00:00:00.000Z''" "writeFileSync_ok ex_env n"
  by (simp_all add: ex_env_def)

lemma ex_fresh_constructor: "get_slot ex_fresh ''constructor'' = BuiltinFunction ''constructor''"
  by (simp add: get_slot_def read_property_def ex_fresh_def Object_prototype_functions_def)

lemma ends_with_save:
  assumes "writes (world m) < writes (world (apply_op e a m))"
  shows "\<exists>m0. apply_op e a m = save e m0"
proof (cases a)
  case (InitProject key)
  with assms show ?thesis
    by (cases "truthy (get_slot m key)") (auto simp add: initProject_eq)
next
  case (UpdateProgress key ik i)
  show ?thesis
  proof (cases "get_slot (prepared e key m) key")
    case Undefined
    then show ?thesis using get_slot_prepared_defined [of e key m] by simp
  next
    case (Inherited p)
    then have "prepared e key m = m" by (rule prepared_inherited)
    with assms Inherited UpdateProgress show ?thesis
      by (simp add: updateProgress_eq Let_def)
  qed (auto simp add: UpdateProgress updateProgress_eq Let_def)
next
  case (MarkProjectCompleted key)
  with assms show ?thesis
    by (cases "get_slot m key") (auto simp add: markProjectCompleted_eq split: if_splits)
next
  case Clear
  then show ?thesis by (auto simp add: clear_def split_beta)
qed (use assms in \<open>simp_all add: queries_unchanged\<close>)

lemma persisted_after_write:
  assumes "writes (world m) < writes (world (apply_op e a m))"
    and "writeFileSync_ok e (writes (world (apply_op e a m)) - 1)"
  shows "disk (world (apply_op e a m)) = Json (JSON_stringify (checkpoint (apply_op e a m)))"
proof -
  obtain m0 where m0: "apply_op e a m = save e m0"
    using ends_with_save [OF assms(1)] by auto
  show ?thesis
    using assms(2) unfolding m0 by (simp add: disk_save writes_save)
qed

lemma reload_persisted:
  assumes "disk w = Json (JSON_stringify doc)"
  shows "new_CheckpointManager e w = Some \<lparr>checkpoint = reloaded doc, world = w\<rparr>"
  using assms by (simp add: new_CheckpointManager_def load_def JSON_round_trip)

lemma own_record_reloaded:
  "own_record \<lparr>checkpoint = reloaded doc, world = w\<rparr> key =
     map_option persisted_state (map_of (projects doc) key)"
  by (simp add: own_record_def map_of_reloaded)

lemma plain_ordinary: "ordinary key \<Longrightarrow> plain_slot m key"
  by (simp add: plain_slot_def)

lemma ordinary_X: "ordinary ''X''" "ordinary ''Y''" "ordinary ''KAFKA''" "ordinary ''SPARK''"
  by (simp_all add: ordinary_def Object_prototype_functions_def field_names_def)

lemma initProject_twice: "initProject e' key (initProject e key m) = initProject e key m"
proof (cases "truthy (get_slot m key)")
  case True
  then show ?thesis by (simp add: initProject_eq)
next
  case False
  then have "truthy (get_slot (initProject e key m) key)"
    by (simp add: get_slot_initProject)
  then show ?thesis by (simp add: initProject_eq [of e' key])
qed

lemma initProject_plain:
  assumes "plain_slot m key"
  shows "own_record m key = None \<Longrightarrow>
           own_record (initProject e key m) key =
             Some (fresh_state key (toISOString e (clock_reads (world m))))"
    and "own_record m key \<noteq> None \<Longrightarrow> initProject e key m = m"
    and "k \<noteq> key \<Longrightarrow> own_record (initProject e key m) k = own_record m k"
proof -
  show "own_record m key = None \<Longrightarrow>
           own_record (initProject e key m) key =
             Some (fresh_state key (toISOString e (clock_reads (world m))))"
    using get_slot_plain [OF assms] by (simp add: own_record_initProject)
  show "own_record m key \<noteq> None \<Longrightarrow> initProject e key m = m"
    by (auto simp add: initProject_eq get_slot_own)
  show "k \<noteq> key \<Longrightarrow> own_record (initProject e key m) k = own_record m k"
    by (simp add: own_record_initProject)
qed

lemma increment_count_0: "increment_count 0 = 1"
  by (simp add: increment_count_def js_increment_def double_of_int_def nearest_double_def)

lemma updateProgress_fresh:
  assumes "ordinary key"
  shows "own_record (snd (updateProgress ex_env key issueKey issueIndex ex_fresh)) key =
     Some \<lparr>projectKey = key, lastIssueKey = issueKey, lastIssueIndex = Some issueIndex,
           totalIssuesProcessed = 1, timestamp = ''2025-01-01T00:00:00.000Z'',
           completed = False\<rparr>"
    and "writes (world (snd (updateProgress ex_env key issueKey issueIndex ex_fresh))) = 2"
proof -
  have plain: "plain_slot ex_fresh key"
    using assms by (rule plain_ordinary)
  have slot: "get_slot (prepared ex_env key ex_fresh) key =
      Own (fresh_state key ''2025-01-01T00:00:00.000Z'')"
    by (simp add: get_slot_prepared_plain [OF plain] ex_fresh_facts ex_env_facts)
  have falsy: "\<not> truthy (get_slot ex_fresh key)"
    by (simp add: get_slot_plain [OF plain] ex_fresh_facts)
  show "own_record (snd (updateProgress ex_env key issueKey issueIndex ex_fresh)) key =
     Some \<lparr>projectKey = key, lastIssueKey = issueKey, lastIssueIndex = Some issueIndex,
           totalIssuesProcessed = 1, timestamp = ''2025-01-01T00:00:00.000Z'',
           completed = False\<rparr>"
    by (simp add: updateProgress_eq Let_def slot own_record_save own_record_store fresh_state_def
        increment_count_0 ex_env_facts)
  show "writes (world (snd (updateProgress ex_env key issueKey issueIndex ex_fresh))) = 2"
    by (simp add: updateProgress_eq Let_def slot writes_save world_store)
       (simp add: prepared_def falsy writes_initProject ex_fresh_facts)
qed

subsection \<open>Claims about the ledger\<close>

text \<open>
  C8, at an input where the code departs from it. The manager of a new process has no
  record for the name \<^verbatim>\<open>constructor\<close>, but \<^verbatim>\<open>projects['constructor']\<close> is the function
  \<^verbatim>\<open>Object\<close>, found on the prototype chain, and it is truthy. So
  \<^verbatim>\<open>initProject('constructor')\<close> creates no record and writes nothing: the manager is
  the one it was, and \<^verbatim>\<open>getProjectState\<close> returns the function. (For a plain slot the
  record with index \<open>-1\<close>, count 0 and \<^verbatim>\<open>completed = false\<close> is created where there
  was none and the manager is unchanged where there was one, and a second call changes
  nothing for any name: lemmas \<open>initProject_plain\<close> and \<open>initProject_twice\<close>.)
\<close>

theorem initProject_skips_inherited_name:
  "own_record ex_fresh ''constructor'' = None \<and>
   get_slot ex_fresh ''constructor'' = BuiltinFunction ''constructor'' \<and>
   initProject ex_env ''constructor'' ex_fresh = ex_fresh \<and>
   own_record (initProject ex_env ''constructor'' ex_fresh) ''constructor'' = None \<and>
   writes (world (initProject ex_env ''constructor'' ex_fresh)) = 0 \<and>
   fst (getProjectState ''constructor'' (initProject ex_env ''constructor'' ex_fresh)) =
     BuiltinFunction ''constructor''"
  by (simp add: initProject_eq ex_fresh_constructor ex_fresh_facts getProjectState_def)

text \<open>
  C10, at an input where the code departs from it. The five queries return the manager
  they were given (lemma \<open>queries_unchanged\<close>). But on the manager of a new process,
  where no record exists for the name \<^verbatim>\<open>constructor\<close>,
  \<^verbatim>\<open>markProjectCompleted('constructor')\<close> finds the function \<^verbatim>\<open>Object\<close> in the slot,
  sets \<^verbatim>\<open>completed\<close> on it and calls \<^verbatim>\<open>save\<close>: the file is written once, holding a
  document without records, and \<^verbatim>\<open>isProjectCompleted('constructor')\<close> has turned from
  false to true. The slot is read as in C8, where \<^verbatim>\<open>initProject\<close> on the same name
  writes nothing although no record exists.
\<close>

theorem markProjectCompleted_writes_without_record:
  "own_record ex_fresh ''constructor'' = None \<and>
   writes (world ex_fresh) = 0 \<and>
   markProjectCompleted ex_env ''constructor'' ex_fresh = (Returned, after_constructor) \<and>
   writes (world after_constructor) = 1 \<and>
   disk (world after_constructor) = Json (JSON_stringify (checkpoint after_constructor)) \<and>
   projects (checkpoint after_constructor) = [] \<and>
   own_record after_constructor ''constructor'' = None \<and>
   after_constructor \<noteq> ex_fresh \<and>
   fst (isProjectCompleted ''constructor'' ex_fresh) = False \<and>
   fst (isProjectCompleted ''constructor'' after_constructor) = True"
  by (simp add: after_constructor_def markProjectCompleted_eq ex_fresh_constructor ex_fresh_facts
      writes_save writes_write_bag own_record_save own_record_write_bag)
     (simp add: save_def write_bag_def new_Date_def writeFileSync_def Let_def ex_fresh_def
      ex_env_def new_process_def isProjectCompleted_def get_slot_def read_property_def
      get_completed_def first_of_def fresh_builtins_def empty_bag_def
      Object_prototype_functions_def)

text \<open>
  C7, as the code has it. Let a call have written the file, its last
  \<^verbatim>\<open>writeFileSync\<close> having succeeded. A manager constructed on that file, in any
  process (\<open>G\<close> is what its built-in objects hold), exists and gives, for every
  collection that has a record, the same \<^verbatim>\<open>isProjectCompleted\<close>, and the same
  \<^verbatim>\<open>getLastIndex\<close> where the record's index is a finite number or \<^verbatim>\<open>null\<close>. Where the
  index is \<^verbatim>\<open>NaN\<close> or an infinity the file holds \<^verbatim>\<open>null\<close>, and \<^verbatim>\<open>getLastIndex\<close> is
  \<open>-1\<close> after the reload.
\<close>

theorem reload_round_trip_amended:
  assumes "m' = apply_op e a m"
    and "writes (world m) < writes (world m')"
    and "writeFileSync_ok e (writes (world m') - 1)"
    and "own_record m' key = Some s"
  shows "\<exists>r. new_CheckpointManager e' ((world m')\<lparr>globals := G\<rparr>) = Some r \<and>
           fst (isProjectCompleted key r) = fst (isProjectCompleted key m') \<and>
           (survives_JSON (lastIssueIndex s) \<longrightarrow>
              fst (getLastIndex key r) = fst (getLastIndex key m')) \<and>
           (\<not> survives_JSON (lastIssueIndex s) \<longrightarrow> fst (getLastIndex key r) = Finite (- 1))"
proof -
  let ?w = "(world m')\<lparr>globals := G\<rparr>"
  let ?r = "\<lparr>checkpoint = reloaded (checkpoint m'), world = ?w\<rparr>"
  have "disk (world m') = Json (JSON_stringify (checkpoint m'))"
    using assms(1-3) persisted_after_write [of m e a] by simp
  then have "disk ?w = Json (JSON_stringify (checkpoint m'))" by simp
  then have r: "new_CheckpointManager e' ?w = Some ?r"
    by (rule reload_persisted)
  have "map_of (projects (checkpoint m')) key = Some s"
    using assms(4) by (simp add: own_record_def)
  then have own: "own_record ?r key = Some (persisted_state s)"
    by (simp add: own_record_reloaded)
  have before: "plain_slot m' key" and after: "plain_slot ?r key"
    using assms(4) own by (simp_all add: plain_slot_def)
  have "fst (isProjectCompleted key ?r) = fst (isProjectCompleted key m')"
    by (simp add: isProjectCompleted_plain [OF before] isProjectCompleted_plain [OF after]
        own assms(4) persisted_state_def)
  moreover have "survives_JSON (lastIssueIndex s) \<longrightarrow>
      fst (getLastIndex key ?r) = fst (getLastIndex key m')"
    by (auto simp add: getLastIndex_plain [OF before] getLastIndex_plain [OF after]
        own assms(4) persisted_state_def survives_JSON_def split: option.splits js_number.splits)
  moreover have "\<not> survives_JSON (lastIssueIndex s) \<longrightarrow> fst (getLastIndex key ?r) = Finite (- 1)"
    by (auto simp add: getLastIndex_plain [OF after] own persisted_state_def survives_JSON_def
        split: option.splits js_number.splits)
  ultimately show ?thesis using r by blast
qed

theorem reload_round_trip_amended_witness:
  "kafka_progress = apply_op ex_env (UpdateProgress ''KAFKA'' ''KAFKA-5'' (Finite 4)) ex_fresh \<and>
   writes (world ex_fresh) < writes (world kafka_progress) \<and>
   writeFileSync_ok ex_env (writes (world kafka_progress) - 1) \<and>
   own_record kafka_progress ''KAFKA'' =
     Some \<lparr>projectKey = ''KAFKA'', lastIssueKey = ''KAFKA-5'', lastIssueIndex = Some (Finite 4),
           totalIssuesProcessed = 1, timestamp = ''2025-01-01T00:00:00.000Z'',
           completed = False\<rparr> \<and>
   fst (getLastIndex ''KAFKA'' kafka_progress) = Finite 4 \<and>
   \<not> fst (isProjectCompleted ''KAFKA'' kafka_progress) \<and>
   (\<exists>r. new_CheckpointManager ex_env ((world kafka_progress)\<lparr>globals := fresh_builtins\<rparr>) = Some r \<and>
        \<not> fst (isProjectCompleted ''KAFKA'' r) \<and> fst (getLastIndex ''KAFKA'' r) = Finite 4)"
proof -
  have plain: "plain_slot m ''KAFKA''" for m
    by (rule plain_ordinary) (rule ordinary_X)
  have own: "own_record kafka_progress ''KAFKA'' =
     Some \<lparr>projectKey = ''KAFKA'', lastIssueKey = ''KAFKA-5'', lastIssueIndex = Some (Finite 4),
           totalIssuesProcessed = 1, timestamp = ''2025-01-01T00:00:00.000Z'',
           completed = False\<rparr>"
    and wr: "writes (world kafka_progress) = 2"
    by (simp_all add: kafka_progress_def updateProgress_fresh [OF ordinary_X(3)])
  show ?thesis
    using reload_round_trip_amended [where m' = kafka_progress and e = ex_env and m = ex_fresh
        and a = "UpdateProgress ''KAFKA'' ''KAFKA-5'' (Finite 4)" and key = "''KAFKA''"
        and e' = ex_env and G = fresh_builtins, OF _ _ _ own]
    by (simp add: own wr ex_fresh_facts ex_env_facts getLastIndex_plain [OF plain]
        isProjectCompleted_plain [OF plain] survives_JSON_def)
       (simp add: kafka_progress_def)
qed

text \<open>
  C7 as stated fails. \<^verbatim>\<open>updateProgress('X', 'X-1', NaN)\<close> on the fresh manager writes
  the file with a record for \<^verbatim>\<open>X\<close>. Before the reload \<^verbatim>\<open>getLastIndex('X')\<close> is
  \<^verbatim>\<open>NaN\<close>; on the manager constructed on the file it is \<open>-1\<close>.
\<close>

theorem reload_round_trip_counterexample:
  "nan_progress = apply_op ex_env (UpdateProgress ''X'' ''X-1'' NaN) ex_fresh \<and>
   disk (world nan_progress) = Json (JSON_stringify (checkpoint nan_progress)) \<and>
   own_record nan_progress ''X'' \<noteq> None \<and>
   new_CheckpointManager ex_env (world nan_progress) = Some nan_reloaded \<and>
   fst (getLastIndex ''X'' nan_progress) = NaN \<and>
   fst (getLastIndex ''X'' nan_reloaded) = Finite (- 1) \<and>
   fst (getLastIndex ''X'' nan_reloaded) \<noteq> fst (getLastIndex ''X'' nan_progress)"
proof -
  have plain: "plain_slot m ''X''" for m
    by (rule plain_ordinary) (rule ordinary_X)
  have step: "nan_progress = apply_op ex_env (UpdateProgress ''X'' ''X-1'' NaN) ex_fresh"
    by (simp add: nan_progress_def)
  have own: "own_record nan_progress ''X'' =
     Some \<lparr>projectKey = ''X'', lastIssueKey = ''X-1'', lastIssueIndex = Some NaN,
           totalIssuesProcessed = 1, timestamp = ''2025-01-01T00:00:00.000Z'',
           completed = False\<rparr>"
    and wr: "writes (world nan_progress) = 2"
    by (simp_all add: nan_progress_def updateProgress_fresh [OF ordinary_X(1)])
  have written: "disk (world nan_progress) = Json (JSON_stringify (checkpoint nan_progress))"
    using persisted_after_write [of ex_fresh ex_env "UpdateProgress ''X'' ''X-1'' NaN"] wr
    unfolding step [symmetric] by (simp add: ex_fresh_facts ex_env_facts)
  have reload: "new_CheckpointManager ex_env (world nan_progress) = Some nan_reloaded"
    unfolding nan_reloaded_def using written by (rule reload_persisted)
  have "map_of (projects (checkpoint nan_progress)) ''X'' =
     Some \<lparr>projectKey = ''X'', lastIssueKey = ''X-1'', lastIssueIndex = Some NaN,
           totalIssuesProcessed = 1, timestamp = ''2025-01-01T00:00:00.000Z'',
           completed = False\<rparr>"
    using own by (simp add: own_record_def)
  then have again: "own_record nan_reloaded ''X'' =
     Some \<lparr>projectKey = ''X'', lastIssueKey = ''X-1'', lastIssueIndex = None,
           totalIssuesProcessed = 1, timestamp = ''2025-01-01T00:00:00.000Z'',
           completed = False\<rparr>"
    by (simp add: nan_reloaded_def own_record_reloaded persisted_state_def)
  show ?thesis
    using step written reload
    by (simp add: getLastIndex_plain [OF plain] own again)
qed

text \<open>
  C1, as the code has it. \<^verbatim>\<open>updateProgress\<close> stores the index it is given, whatever the
  record held and whether or not the project is completed. So, for a plain slot and over
  a history without \<^verbatim>\<open>clear\<close>: the last index does not decrease when the history is
  ascending; a completed project stays completed; and a completed record keeps every
  field as long as no \<^verbatim>\<open>updateProgress\<close> for that project is in the history.
\<close>

theorem ledger_record_invariant_amended:
  assumes "Clear \<notin> set ops" and "plain_slot m key"
  shows "fst (getLastIndex key (snd (updateProgress e key issueKey issueIndex m))) = issueIndex \<and>
     (ascending e key ops m \<longrightarrow>
        not_below (fst (getLastIndex key m)) (fst (getLastIndex key (run e ops m)))) \<and>
     (fst (isProjectCompleted key m) \<longrightarrow> fst (isProjectCompleted key (run e ops m))) \<and>
     (fst (isProjectCompleted key m) \<and> list_all (\<lambda>a. \<not> updates key a) ops \<longrightarrow>
        own_record (run e ops m) key = own_record m key)"
proof -
  have "fst (getLastIndex key (apply_op e (UpdateProgress key issueKey issueIndex) m)) = issueIndex"
    using getLastIndex_step [of "UpdateProgress key issueKey issueIndex" m key e] assms(2)
    by simp
  then have "fst (getLastIndex key (snd (updateProgress e key issueKey issueIndex m))) = issueIndex"
    by simp
  then show ?thesis
    using assms lastIndex_ascending [of ops m key e] completed_stays [of ops m key e]
      completed_record_frozen [of ops key m e]
    by blast
qed

theorem ledger_record_invariant_amended_witness:
  "Clear \<notin> set [InitProject ''X'', UpdateProgress ''X'' ''X-5'' (Finite 4), GetLastIndex ''X'',
       UpdateProgress ''X'' ''X-10'' (Finite 9)] \<and>
   plain_slot ex_fresh ''X'' \<and>
   ascending ex_env ''X'' [InitProject ''X'', UpdateProgress ''X'' ''X-5'' (Finite 4),
       GetLastIndex ''X'', UpdateProgress ''X'' ''X-10'' (Finite 9)] ex_fresh \<and>
   not_below (fst (getLastIndex ''X'' ex_fresh))
     (fst (getLastIndex ''X'' (run ex_env [InitProject ''X'', UpdateProgress ''X'' ''X-5'' (Finite 4),
       GetLastIndex ''X'', UpdateProgress ''X'' ''X-10'' (Finite 9)] ex_fresh))) \<and>
   Clear \<notin> set [InitProject ''X'', MarkProjectCompleted ''X'', GetSummary,
       UpdateProgress ''Y'' ''Y-1'' (Finite 0)] \<and>
   plain_slot after_completion ''X'' \<and>
   fst (isProjectCompleted ''X'' after_completion) \<and>
   list_all (\<lambda>a. \<not> updates ''X'' a) [InitProject ''X'', MarkProjectCompleted ''X'', GetSummary,
       UpdateProgress ''Y'' ''Y-1'' (Finite 0)] \<and>
   fst (isProjectCompleted ''X'' (run ex_env [InitProject ''X'', MarkProjectCompleted ''X'',
       GetSummary, UpdateProgress ''Y'' ''Y-1'' (Finite 0)] after_completion)) \<and>
   own_record (run ex_env [InitProject ''X'', MarkProjectCompleted ''X'', GetSummary,
       UpdateProgress ''Y'' ''Y-1'' (Finite 0)] after_completion) ''X'' =
     own_record after_completion ''X''"
proof -
  have plain: "plain_slot m ''X''" for m
    by (rule plain_ordinary) (rule ordinary_X)
  have step: "a \<noteq> Clear \<Longrightarrow> fst (getLastIndex ''X'' (apply_op e a m)) =
     (case a of
        UpdateProgress k issueKey issueIndex \<Rightarrow>
          if k = ''X'' then issueIndex else fst (getLastIndex ''X'' m)
      | _ \<Rightarrow> fst (getLastIndex ''X'' m))" for a e m
    by (rule getLastIndex_step [OF _ plain])
  have base: "fst (getLastIndex ''X'' ex_fresh) = Finite (- 1)"
    by (simp add: getLastIndex_plain [OF plain] ex_fresh_facts)
  have asc: "ascending ex_env ''X'' [InitProject ''X'', UpdateProgress ''X'' ''X-5'' (Finite 4),
      GetLastIndex ''X'', UpdateProgress ''X'' ''X-10'' (Finite 9)] ex_fresh"
    by (simp add: step base not_below_def del: apply_op.simps)
  have compl: "fst (isProjectCompleted ''X'' after_completion)"
    by (simp add: after_completion_def isProjectCompleted_plain [OF plain]
        own_record_markProjectCompleted_plain [OF plain] own_record_initProject
        get_slot_plain [OF plain] ex_fresh_facts fresh_state_def)
  show ?thesis
    using ledger_record_invariant_amended [of "[InitProject ''X'', UpdateProgress ''X'' ''X-5'' (Finite 4),
          GetLastIndex ''X'', UpdateProgress ''X'' ''X-10'' (Finite 9)]" ex_fresh "''X''" ex_env
          "''X-5''" "Finite 4"]
      ledger_record_invariant_amended [of "[InitProject ''X'', MarkProjectCompleted ''X'',
          GetSummary, UpdateProgress ''Y'' ''Y-1'' (Finite 0)]" after_completion "''X''" ex_env
          "''X-5''" "Finite 4"]
      asc compl plain
    by simp
qed

text \<open>
  C1 as stated fails in both halves. On a project that is not completed, a second
  \<^verbatim>\<open>updateProgress\<close> with a smaller index lowers the last index from 4 to 0; on a
  completed project, \<^verbatim>\<open>updateProgress\<close> changes the record.
\<close>

theorem ledger_record_invariant_counterexample:
  "\<not> fst (isProjectCompleted ''X'' after_progress) \<and>
   \<not> fst (isProjectCompleted ''X'' (snd (updateProgress ex_env ''X'' ''X-1'' (Finite 0) after_progress))) \<and>
   fst (getLastIndex ''X'' after_progress) = Finite 4 \<and>
   fst (getLastIndex ''X'' (snd (updateProgress ex_env ''X'' ''X-1'' (Finite 0) after_progress))) =
     Finite 0 \<and>
   \<not> not_below (fst (getLastIndex ''X'' after_progress))
       (fst (getLastIndex ''X'' (snd (updateProgress ex_env ''X'' ''X-1'' (Finite 0) after_progress)))) \<and>
   fst (isProjectCompleted ''X'' after_completion) \<and>
   own_record (snd (updateProgress ex_env ''X'' ''X-1'' (Finite 0) after_completion)) ''X'' \<noteq>
     own_record after_completion ''X''"
proof -
  have plain: "plain_slot m ''X''" for m
    by (rule plain_ordinary) (rule ordinary_X)
  obtain t1 where progress: "own_record after_progress ''X'' =
      Some \<lparr>projectKey = ''X'', lastIssueKey = ''X-5'', lastIssueIndex = Some (Finite 4),
            totalIssuesProcessed = increment_count 0, timestamp = t1, completed = False\<rparr>"
    using updateProgress_plain(2) [OF plain, where m = ex_fresh and e = ex_env
        and issueKey = "''X-5''" and issueIndex = "Finite 4"]
    by (auto simp add: after_progress_def ex_fresh_facts fresh_state_def)
  have completion: "own_record after_completion ''X'' =
      Some \<lparr>projectKey = ''X'', lastIssueKey = [], lastIssueIndex = Some (Finite (- 1)),
            totalIssuesProcessed = 0, timestamp = ''2025-01-01T00:00:00.000Z'',
            completed = True\<rparr>"
    by (simp add: after_completion_def own_record_markProjectCompleted_plain [OF plain]
        own_record_initProject get_slot_plain [OF plain] ex_fresh_facts ex_env_facts
        fresh_state_def)
  have second: "\<exists>now. own_record (snd (updateProgress ex_env ''X'' ''X-1'' (Finite 0) after_progress)) ''X'' =
      Some \<lparr>projectKey = ''X'', lastIssueKey = ''X-1'', lastIssueIndex = Some (Finite 0),
            totalIssuesProcessed = increment_count (increment_count 0), timestamp = now,
            completed = False\<rparr>"
    using updateProgress_plain(2) [OF plain, where m = after_progress and e = ex_env
        and issueKey = "''X-1''" and issueIndex = "Finite 0"]
    by (auto simp add: progress)
  have third: "\<exists>now. own_record (snd (updateProgress ex_env ''X'' ''X-1'' (Finite 0) after_completion)) ''X'' =
      Some \<lparr>projectKey = ''X'', lastIssueKey = ''X-1'', lastIssueIndex = Some (Finite 0),
            totalIssuesProcessed = increment_count 0, timestamp = now,
            completed = True\<rparr>"
    using updateProgress_plain(2) [OF plain, where m = after_completion and e = ex_env
        and issueKey = "''X-1''" and issueIndex = "Finite 0"]
    by (auto simp add: completion)
  show ?thesis
    using second third
    by (auto simp add: getLastIndex_plain [OF plain] isProjectCompleted_plain [OF plain]
        progress completion not_below_def)
qed

section \<open>Fetch client: \<^verbatim>\<open>src/api/jiraClient.ts\<close>\<close>

text \<open>
  The issue type is a parameter \<open>'i\<close>: the client never looks inside an issue. A
  request is the URL that \<^verbatim>\<open>getProject\<close> or \<^verbatim>\<open>searchIssues\<close> builds, kept as its
  parts (project key, \<^verbatim>\<open>startAt\<close>, \<^verbatim>\<open>maxResults\<close>); the base URL, the JQL text and the
  field list are the same in every request and are left out. \<^verbatim>\<open>getProject\<close> and
  \<^verbatim>\<open>getStats\<close> are not modelled.
\<close>

record 'i JiraSearchResponse =
  issues :: "'i list"
  startAt :: int
  maxResults :: int
  total :: int

datatype request = ProjectUrl string | SearchUrl string int int

text \<open>
  What the client reads of a \<^verbatim>\<open>Response\<close>: the status, \<^verbatim>\<open>headers.get('Retry-After')\<close>
  (\<open>None\<close> for \<^verbatim>\<open>null\<close>), \<^verbatim>\<open>text()\<close>, and \<^verbatim>\<open>json()\<close> (\<open>None\<close> when it rejects). The
  promise \<^verbatim>\<open>fetch\<close> returns resolves to a response or rejects with an error message.
\<close>

record 'i Response =
  status :: nat
  retryAfter :: "string option"
  body_text :: string
  body_json :: "'i JiraSearchResponse option"

datatype 'i reply = Resolved "'i Response" | Rejected string

text \<open>
  The environment fixes what the \<open>n\<close>-th \<^verbatim>\<open>Date.now()\<close> returns and how the \<open>n\<close>-th
  call of \<^verbatim>\<open>fetch\<close> ends, given its URL. The two \<^verbatim>\<open>readonly\<close> fields of the class are
  the configuration. The client record holds the two mutable fields, the counts of clock
  readings and of \<^verbatim>\<open>fetch\<close> calls so far, and the log of what the client did: each
  \<^verbatim>\<open>fetch\<close> and each \<^verbatim>\<open>setTimeout\<close> wait, tagged by the branch that waits, with
  the delay the branch passes to \<^verbatim>\<open>setTimeout\<close> in milliseconds. In the 429 branch the
  delay can come from a header, so it is any number; in the other branches it is
  \<^verbatim>\<open>Math.pow(2, retryCount) * 1000\<close>, an integer.
\<close>

record 'i client_env =
  Date_now :: "nat \<Rightarrow> int"
  fetch :: "nat \<Rightarrow> request \<Rightarrow> 'i reply"

record config =
  minDelay :: int
  maxRetries :: nat

definition default_config :: config where
  "default_config = \<lparr>minDelay = 1000, maxRetries = 3\<rparr>"

datatype event =
    RateLimitWait int
  | Fetch request
  | RateLimitHitWait js_number
  | ServerErrorWait int
  | NetworkErrorWait int

record JiraApiClient =
  requestCount :: nat
  lastRequestTime :: int
  date_reads :: nat
  fetches :: nat
  events :: "event list"

definition new_JiraApiClient :: JiraApiClient where
  "new_JiraApiClient =
     \<lparr>requestCount = 0, lastRequestTime = 0, date_reads = 0, fetches = 0, events = []\<rparr>"

definition log_event :: "event \<Rightarrow> JiraApiClient \<Rightarrow> JiraApiClient" where
  "log_event ev c = c\<lparr>events := events c @ [ev]\<rparr>"

definition read_Date_now :: "'i client_env \<Rightarrow> JiraApiClient \<Rightarrow> int \<times> JiraApiClient" where
  "read_Date_now e c = (Date_now e (date_reads c), c\<lparr>date_reads := Suc (date_reads c)\<rparr>)"

definition rateLimit :: "'i client_env \<Rightarrow> config \<Rightarrow> JiraApiClient \<Rightarrow> JiraApiClient" where
  "rateLimit e cfg c =
     (let (now, c1) = read_Date_now e c;
          timeSinceLastRequest = now - lastRequestTime c1;
          c2 = (if timeSinceLastRequest < minDelay cfg
                then log_event (RateLimitWait (minDelay cfg - timeSinceLastRequest)) c1
                else c1);
          (now2, c3) = read_Date_now e c2
      in c3\<lparr>lastRequestTime := now2, requestCount := Suc (requestCount c3)\<rparr>)"

definition call_fetch :: "'i client_env \<Rightarrow> request \<Rightarrow> JiraApiClient \<Rightarrow> 'i reply \<times> JiraApiClient" where
  "call_fetch e url c = (fetch e (fetches c) url, log_event (Fetch url) (c\<lparr>fetches := Suc (fetches c)\<rparr>))"

subsection \<open>The library functions the client calls\<close>

text \<open>
  \<^verbatim>\<open>parseInt\<close> with no radix: skip leading white space, read a sign, read a \<^verbatim>\<open>0x\<close>
  prefix, then the longest run of digits of the radix; \<^verbatim>\<open>NaN\<close> when the run is empty,
  and otherwise the double nearest to the signed integer that the digits denote (every
  digit is read, as V8 does). A character is a code unit below 256, as in a header
  value.
\<close>

definition is_StrWhiteSpaceChar :: "char \<Rightarrow> bool" where
  "is_StrWhiteSpaceChar c \<longleftrightarrow> (of_char c :: nat) \<in> set [9, 10, 11, 12, 13, 32, 160]"

definition radix_digit :: "nat \<Rightarrow> char \<Rightarrow> nat option" where
  "radix_digit R c =
     (let n = (of_char c :: nat);
          v = (if 48 \<le> n \<and> n \<le> 57 then Some (n - 48)
               else if 97 \<le> n \<and> n \<le> 122 then Some (n - 87)
               else if 65 \<le> n \<and> n \<le> 90 then Some (n - 55)
               else None)
      in case v of Some d \<Rightarrow> (if d < R then Some d else None) | None \<Rightarrow> None)"

definition radix_value :: "nat \<Rightarrow> string \<Rightarrow> nat" where
  "radix_value R Z = foldl (\<lambda>n c. R * n + (case radix_digit R c of Some d \<Rightarrow> d | None \<Rightarrow> 0)) 0 Z"

definition parseInt :: "string \<Rightarrow> js_number" where
  "parseInt inputString =
     (let S = dropWhile is_StrWhiteSpaceChar inputString;
          sign = (if S \<noteq> [] \<and> hd S = CHR ''-'' then - 1 else 1);
          S1 = (if S \<noteq> [] \<and> (hd S = CHR ''+'' \<or> hd S = CHR ''-'') then tl S else S);
          hex = (take 2 S1 = ''0x'' \<or> take 2 S1 = ''0X'');
          R = (if hex then 16 else 10);
          S2 = (if hex then drop 2 S1 else S1);
          Z = takeWhile (\<lambda>c. radix_digit R c \<noteq> None) S2
      in if Z = [] then NaN else double_of_int (sign * int (radix_value R Z)))"

text \<open>A status or a retry count in a template literal: its decimal digits.\<close>

fun show_nat :: "nat \<Rightarrow> string" where
  "show_nat n =
     (if n < 10 then [char_of (48 + n)] else show_nat (n div 10) @ [char_of (48 + n mod 10)])"

text \<open>\<^verbatim>\<open>String.prototype.includes\<close>: the pattern starts at some position of the string.\<close>

fun starts_with :: "string \<Rightarrow> string \<Rightarrow> bool" where
  "starts_with s [] = True"
| "starts_with [] (p # ps) = False"
| "starts_with (c # cs) (p # ps) = (c = p \<and> starts_with cs ps)"

fun str_includes :: "string \<Rightarrow> string \<Rightarrow> bool" where
  "str_includes [] p = (p = [])"
| "str_includes (c # cs) p = (starts_with (c # cs) p \<or> str_includes cs p)"

subsection \<open>\<^verbatim>\<open>fetchWithRetry\<close>\<close>

text \<open>
  One pass through the \<^verbatim>\<open>try\<close> block ends in one of three ways: it returns the
  response, it returns the promise of the recursive call, or it throws. The two
  \<^verbatim>\<open>throw\<close> statements after an exhausted 429 or 5xx and the one for a 4xx stand inside
  the \<^verbatim>\<open>try\<close>, so their errors reach the \<^verbatim>\<open>catch\<close> block like a rejection of
  \<^verbatim>\<open>fetch\<close>. The recursive call is returned without \<^verbatim>\<open>await\<close>, so its failure does not.
\<close>

datatype 'i attempt = Returns "'i Response" | Retries | Throws string

definition try_block ::
  "'i client_env \<Rightarrow> config \<Rightarrow> request \<Rightarrow> nat \<Rightarrow> JiraApiClient \<Rightarrow> 'i attempt \<times> JiraApiClient" where
  "try_block e cfg url retryCount c =
     (let (reply, c1) = call_fetch e url c
      in case reply of
           Rejected message \<Rightarrow> (Throws message, c1)
         | Resolved response \<Rightarrow>
             if status response = 429 then
               let waitTime =
                     (case retryAfter response of
                        Some h \<Rightarrow>
                          if h \<noteq> [] then js_times_1000 (parseInt h)
                          else Finite (2 ^ retryCount * 1000)
                      | None \<Rightarrow> Finite (2 ^ retryCount * 1000));
                   c2 = log_event (RateLimitHitWait waitTime) c1
               in if retryCount < maxRetries cfg then (Retries, c2)
                  else (Throws (''Rate limit exceeded after '' @ show_nat (maxRetries cfg) @
                          '' retries''), c2)
             else if 500 \<le> status response \<and> status response < 600 then
               let waitTime = 2 ^ retryCount * 1000;
                   c2 = log_event (ServerErrorWait waitTime) c1
               in if retryCount < maxRetries cfg then (Retries, c2)
                  else (Throws (''Server error '' @ show_nat (status response) @ '' after '' @
                          show_nat (maxRetries cfg) @ '' retries''), c2)
             else if 400 \<le> status response \<and> status response < 500 then
               (Throws (''Client error '' @ show_nat (status response) @ '': '' @
                  body_text response), c1)
             else (Returns response, c1))"

lemma try_block_Retries:
  "try_block e cfg url retryCount c = (Retries, c') \<Longrightarrow> retryCount < maxRetries cfg"
  by (auto simp add: try_block_def Let_def split: prod.splits reply.splits if_splits)

function fetchWithRetry ::
  "'i client_env \<Rightarrow> config \<Rightarrow> request \<Rightarrow> nat \<Rightarrow> JiraApiClient \<Rightarrow>
     (string + 'i Response) \<times> JiraApiClient" where
  "fetchWithRetry e cfg url retryCount c =
     (case try_block e cfg url retryCount (rateLimit e cfg c) of
        (Returns response, c1) \<Rightarrow> (Inr response, c1)
      | (Retries, c1) \<Rightarrow> fetchWithRetry e cfg url (retryCount + 1) c1
      | (Throws message, c1) \<Rightarrow>
          if str_includes message ''fetch failed'' \<or> str_includes message ''network'' then
            let c2 = log_event (NetworkErrorWait (2 ^ retryCount * 1000)) c1
            in if retryCount < maxRetries cfg
               then fetchWithRetry e cfg url (retryCount + 1) c2
               else (Inl message, c2)
          else (Inl message, c1))"
  by pat_completeness auto
termination
  by (relation "measure (\<lambda>(e, cfg, url, retryCount, c). maxRetries cfg - retryCount)")
     (auto dest: try_block_Retries [OF sym])

subsection \<open>\<^verbatim>\<open>searchIssues\<close> and \<^verbatim>\<open>getAllIssues\<close>\<close>

definition response_ok :: "'i Response \<Rightarrow> bool" where
  "response_ok response \<longleftrightarrow> 200 \<le> status response \<and> status response \<le> 299"

text \<open>
  \<^verbatim>\<open>searchIssues\<close> catches every error and returns \<^verbatim>\<open>null\<close>, here \<open>None\<close>: a failure
  of \<^verbatim>\<open>fetchWithRetry\<close>, a response that is not \<^verbatim>\<open>ok\<close>, a body that is not JSON.
\<close>

definition searchIssues ::
  "'i client_env \<Rightarrow> config \<Rightarrow> string \<Rightarrow> int \<Rightarrow> int \<Rightarrow> JiraApiClient \<Rightarrow>
     'i JiraSearchResponse option \<times> JiraApiClient" where
  "searchIssues e cfg key start pageSize c =
     (case fetchWithRetry e cfg (SearchUrl key start pageSize) 0 c of
        (Inl message, c1) \<Rightarrow> (None, c1)
      | (Inr response, c1) \<Rightarrow>
          if \<not> response_ok response then (None, c1) else (body_json response, c1))"

text \<open>
  The cap is \<^verbatim>\<open>number | null\<close>. In \<^verbatim>\<open>limit && allIssues.length >= limit\<close> a cap of
  \<^verbatim>\<open>null\<close> or \<open>0\<close> is falsy. \<^verbatim>\<open>slice(0, limit)\<close> counts a negative \<^verbatim>\<open>limit\<close> from the
  end of the array.
\<close>

definition limit_reached :: "int option \<Rightarrow> 'i list \<Rightarrow> bool" where
  "limit_reached limit allIssues \<longleftrightarrow>
     (case limit of None \<Rightarrow> False | Some l \<Rightarrow> l \<noteq> 0 \<and> l \<le> int (length allIssues))"

definition slice_to :: "'i list \<Rightarrow> int \<Rightarrow> 'i list" where
  "slice_to xs l = (if l < 0 then take (nat (int (length xs) + l)) xs else take (nat l) xs)"

text \<open>
  The \<^verbatim>\<open>while (hasMore)\<close> loop. The server chooses \<^verbatim>\<open>total\<close> in every response, so the
  loop need not end: it runs on fuel, one unit for each pass, and \<open>None\<close> is a loop
  that is still running when the fuel is spent. \<^verbatim>\<open>hasMore\<close> is \<^verbatim>\<open>true\<close> on entry, so
  the first pass always runs.
\<close>

fun getAllIssues_loop ::
  "'i client_env \<Rightarrow> config \<Rightarrow> string \<Rightarrow> int option \<Rightarrow> nat \<Rightarrow> 'i list \<Rightarrow> int \<Rightarrow> JiraApiClient \<Rightarrow>
     ('i list \<times> JiraApiClient) option" where
  "getAllIssues_loop e cfg key limit 0 allIssues start c = None"
| "getAllIssues_loop e cfg key limit (Suc fuel) allIssues start c =
     (case searchIssues e cfg key start 50 c of
        (None, c1) \<Rightarrow> Some (allIssues, c1)
      | (Some response, c1) \<Rightarrow>
          let allIssues1 = allIssues @ issues response
          in if limit_reached limit allIssues1
             then Some (slice_to allIssues1 (case limit of Some l \<Rightarrow> l | None \<Rightarrow> 0), c1)
             else
               let hasMore = (start + 50 < total response);
                   start1 = start + 50;
                   hasMore1 = (if start1 \<ge> total response then False else hasMore)
               in if hasMore1 then getAllIssues_loop e cfg key limit fuel allIssues1 start1 c1
                  else Some (allIssues1, c1))"

definition getAllIssues ::
  "'i client_env \<Rightarrow> config \<Rightarrow> string \<Rightarrow> int option \<Rightarrow> nat \<Rightarrow> JiraApiClient \<Rightarrow>
     ('i list \<times> JiraApiClient) option" where
  "getAllIssues e cfg key limit fuel c = getAllIssues_loop e cfg key limit fuel [] 0 c"

subsection \<open>Reading the log\<close>

text \<open>
  The waits before a retry, in order: as whole milliseconds (\<open>None\<close> for a delay that
  is not a finite number), and, for the 429 branch alone, as the numbers passed to
  \<^verbatim>\<open>setTimeout\<close>.
\<close>

fun retry_wait :: "event \<Rightarrow> int option option" where
  "retry_wait (RateLimitHitWait d) = Some (case d of Finite n \<Rightarrow> Some n | _ \<Rightarrow> None)"
| "retry_wait (ServerErrorWait d) = Some (Some d)"
| "retry_wait (NetworkErrorWait d) = Some (Some d)"
| "retry_wait _ = None"

definition retry_waits :: "event list \<Rightarrow> int option list" where
  "retry_waits evs = List.map_filter retry_wait evs"

fun rate_limit_wait :: "event \<Rightarrow> js_number option" where
  "rate_limit_wait (RateLimitHitWait d) = Some d"
| "rate_limit_wait _ = None"

definition rate_limit_waits :: "event list \<Rightarrow> js_number list" where
  "rate_limit_waits evs = List.map_filter rate_limit_wait evs"

fun search_offset :: "event \<Rightarrow> int option" where
  "search_offset (Fetch (SearchUrl key start pageSize)) = Some start"
| "search_offset _ = None"

definition search_offsets :: "event list \<Rightarrow> int list" where
  "search_offsets evs = List.map_filter search_offset evs"

subsection \<open>Servers\<close>

text \<open>
  A server that holds the list \<open>all\<close> of a project's issues and answers every search
  with status 200, the requested slice and \<open>total = length all\<close>; the clock is any.
\<close>

definition page_of :: "'i list \<Rightarrow> int \<Rightarrow> int \<Rightarrow> 'i JiraSearchResponse" where
  "page_of all start pageSize =
     \<lparr>issues = take (nat pageSize) (drop (nat start) all), startAt = start,
      maxResults = pageSize, total = int (length all)\<rparr>"

fun paged_fetch :: "'i list \<Rightarrow> nat \<Rightarrow> request \<Rightarrow> 'i reply" where
  "paged_fetch all n (SearchUrl key start pageSize) =
     Resolved \<lparr>status = 200, retryAfter = None, body_text = [],
       body_json = Some (page_of all start pageSize)\<rparr>"
| "paged_fetch all n (ProjectUrl key) =
     Resolved \<lparr>status = 200, retryAfter = None, body_text = [], body_json = None\<rparr>"

definition paged_server :: "(nat \<Rightarrow> int) \<Rightarrow> 'i list \<Rightarrow> 'i client_env" where
  "paged_server clock all = \<lparr>Date_now = clock, fetch = paged_fetch all\<rparr>"

text \<open>Servers that always give the same answer, and the one used where a page fails.\<close>

definition always_429 :: "unit client_env" where
  "always_429 =
     \<lparr>Date_now = (\<lambda>n. 0),
      fetch = (\<lambda>n url. Resolved \<lparr>status = 429, retryAfter = (if n = 1 then Some ''5'' else None),
                 body_text = ''Too Many Requests'', body_json = None\<rparr>)\<rparr>"

text \<open>
  A server whose 429 responses carry, in turn, a number of seconds above \<open>2 ^ 53\<close>, an
  HTTP date, a fraction and an empty header.
\<close>

definition odd_429 :: "unit client_env" where
  "odd_429 =
     \<lparr>Date_now = (\<lambda>n. 0),
      fetch = (\<lambda>n url. Resolved \<lparr>status = 429,
                 retryAfter =
                   (if n = 0 then Some ''9007199254740993''
                    else if n = 1 then Some ''Wed, 21 Oct 2015 07:28:00 GMT''
                    else if n = 2 then Some ''1.5''
                    else Some []),
                 body_text = ''Too Many Requests'', body_json = None\<rparr>)\<rparr>"

definition always_503 :: "unit client_env" where
  "always_503 =
     \<lparr>Date_now = (\<lambda>n. 0),
      fetch = (\<lambda>n url. Resolved \<lparr>status = 503, retryAfter = Some ''120'',
                 body_text = ''Service Unavailable'', body_json = None\<rparr>)\<rparr>"

definition always_404_network :: "unit client_env" where
  "always_404_network =
     \<lparr>Date_now = (\<lambda>n. 0),
      fetch = (\<lambda>n url. Resolved \<lparr>status = 404, retryAfter = None,
                 body_text = ''network unreachable'', body_json = None\<rparr>)\<rparr>"

definition not_found :: "nat client_env" where
  "not_found =
     \<lparr>Date_now = (\<lambda>n. 0),
      fetch = (\<lambda>n url. Resolved \<lparr>status = 404, retryAfter = None,
                 body_text = ''Not Found'', body_json = None\<rparr>)\<rparr>"

subsection \<open>Notions used to state the claims\<close>

text \<open>
  What the source computes, named. \<open>waitTime_429\<close> is the \<^verbatim>\<open>waitTime\<close> of the 429
  branch as a function of what \<^verbatim>\<open>headers.get('Retry-After')\<close> returned; a response is
  \<open>retryable\<close> when the 429 or the 5xx branch takes it; \<open>retry_event\<close> is the wait of
  that branch, \<open>exhausted_message\<close> the message it throws when no retry is left, and
  \<open>nth_wait f\<close> what the reading \<open>f\<close> of the log sees of the wait after the \<open>n\<close>-th call
  of \<^verbatim>\<open>fetch\<close>. \<open>header_of\<close> is the header of the \<open>n\<close>-th response.
\<close>

definition waitTime_429 :: "string option \<Rightarrow> nat \<Rightarrow> js_number" where
  "waitTime_429 header retryCount =
     (case header of
        Some h \<Rightarrow>
          if h \<noteq> [] then js_times_1000 (parseInt h)
          else Finite (2 ^ retryCount * 1000)
      | None \<Rightarrow> Finite (2 ^ retryCount * 1000))"

definition retryable :: "'i Response \<Rightarrow> bool" where
  "retryable response \<longleftrightarrow>
     status response = 429 \<or> (500 \<le> status response \<and> status response < 600)"

definition retry_event :: "'i Response \<Rightarrow> nat \<Rightarrow> event" where
  "retry_event response retryCount =
     (if status response = 429
      then RateLimitHitWait (waitTime_429 (retryAfter response) retryCount)
      else ServerErrorWait (2 ^ retryCount * 1000))"

definition exhausted_message :: "config \<Rightarrow> 'i Response \<Rightarrow> string" where
  "exhausted_message cfg response =
     (if status response = 429
      then ''Rate limit exceeded after '' @ show_nat (maxRetries cfg) @ '' retries''
      else ''Server error '' @ show_nat (status response) @ '' after '' @
           show_nat (maxRetries cfg) @ '' retries'')"

definition nth_wait ::
  "(event \<Rightarrow> 'a option) \<Rightarrow> 'i client_env \<Rightarrow> request \<Rightarrow> nat \<Rightarrow> nat \<Rightarrow> 'a option" where
  "nth_wait f e url n retryCount =
     (case fetch e n url of
        Resolved response \<Rightarrow> f (retry_event response retryCount)
      | Rejected message \<Rightarrow> None)"

definition header_of :: "'i client_env \<Rightarrow> request \<Rightarrow> nat \<Rightarrow> string option" where
  "header_of e url n = (case fetch e n url of Resolved r \<Rightarrow> retryAfter r | Rejected message \<Rightarrow> None)"

text \<open>
  What the specification says. A \<^verbatim>\<open>Retry-After\<close> header is a number of seconds: a
  non-empty string of decimal digits. \<open>retry_after_or_backoff\<close> is the delay the
  specification asks for in milliseconds: the header's seconds where there is a header,
  \<open>2 ^ attempt\<close> seconds otherwise. \<open>exact_delay_seconds\<close> holds of an absent header and
  of a number of seconds whose milliseconds are below \<open>2 ^ 53\<close>, where every integer
  is a double. \<open>no_cap\<close> holds of the caps that the cap check treats as absent.
\<close>

definition is_decimal :: "string \<Rightarrow> bool" where
  "is_decimal h \<longleftrightarrow> h \<noteq> [] \<and> list_all is_digit h"

definition retry_after_or_backoff :: "string option \<Rightarrow> nat \<Rightarrow> int" where
  "retry_after_or_backoff header attempt =
     (case header of Some h \<Rightarrow> int (decimal_value h) * 1000 | None \<Rightarrow> 2 ^ attempt * 1000)"

definition exact_delay_seconds :: "string option \<Rightarrow> bool" where
  "exact_delay_seconds header \<longleftrightarrow>
     (case header of
        None \<Rightarrow> True
      | Some h \<Rightarrow> is_decimal h \<and> int (decimal_value h) * 1000 < 2 ^ 53)"

definition no_cap :: "int option \<Rightarrow> bool" where
  "no_cap limit \<longleftrightarrow> limit = None \<or> limit = Some 0"

subsection \<open>Basic facts about the client\<close>

declare fetchWithRetry.simps [simp del]

declare show_nat.simps [simp del]

lemma retry_waits_append: "retry_waits (xs @ ys) = retry_waits xs @ retry_waits ys"
  by (simp add: retry_waits_def List.map_filter_def)

lemma search_offsets_append: "search_offsets (xs @ ys) = search_offsets xs @ search_offsets ys"
  by (simp add: search_offsets_def List.map_filter_def)

lemma rate_limit_waits_single:
  "rate_limit_waits [] = []"
  "rate_limit_waits (ev # evs) =
     (case rate_limit_wait ev of None \<Rightarrow> rate_limit_waits evs | Some d \<Rightarrow> d # rate_limit_waits evs)"
  by (simp_all add: rate_limit_waits_def List.map_filter_def split: option.splits)

lemma retry_waits_single:
  "retry_waits [] = []"
  "retry_waits (ev # evs) =
     (case retry_wait ev of None \<Rightarrow> retry_waits evs | Some d \<Rightarrow> d # retry_waits evs)"
  by (simp_all add: retry_waits_def List.map_filter_def split: option.splits)

lemma search_offsets_single:
  "search_offsets [] = []"
  "search_offsets (ev # evs) =
     (case search_offset ev of None \<Rightarrow> search_offsets evs | Some d \<Rightarrow> d # search_offsets evs)"
  by (simp_all add: search_offsets_def List.map_filter_def split: option.splits)

lemma rateLimit_frame:
  "fetches (rateLimit e cfg c) = fetches c"
  "requestCount (rateLimit e cfg c) = Suc (requestCount c)"
  "retry_waits (events (rateLimit e cfg c)) = retry_waits (events c)"
  "search_offsets (events (rateLimit e cfg c)) = search_offsets (events c)"
  by (simp_all add: rateLimit_def read_Date_now_def log_event_def Let_def
      retry_waits_append search_offsets_append retry_waits_single search_offsets_single)

lemma starts_with_set: "starts_with s p \<Longrightarrow> set p \<subseteq> set s"
  by (induction s p rule: starts_with.induct) auto

lemma str_includes_set: "str_includes s p \<Longrightarrow> set p \<subseteq> set s"
proof (induction s)
  case Nil
  then show ?case by simp
next
  case (Cons c cs)
  then show ?case
    using starts_with_set [of "c # cs" p] by auto
qed

lemma show_nat_digits: "c \<in> set (show_nat n) \<Longrightarrow> is_digit c"
proof (induction n rule: show_nat.induct)
  case (1 n)
  show ?case
  proof (cases "n < 10")
    case True
    with "1.prems" show ?thesis
      by (subst (asm) show_nat.simps) (simp add: is_digit_def)
  next
    case False
    have "n mod 10 < 10" by simp
    then have last: "is_digit (char_of (48 + n mod 10))"
      by (simp add: is_digit_def)
    from "1.prems" False have "c \<in> set (show_nat (n div 10)) \<or> c = char_of (48 + n mod 10)"
      by (subst (asm) show_nat.simps) auto
    with "1.IH" False last show ?thesis by auto
  qed
qed

lemma exhausted_message_not_network:
  "\<not> str_includes (''Rate limit exceeded after '' @ show_nat n @ '' retries'') ''network''"
  "\<not> str_includes (''Rate limit exceeded after '' @ show_nat n @ '' retries'') ''fetch failed''"
  "\<not> str_includes (''Server error '' @ show_nat k @ '' after '' @ show_nat n @ '' retries'') ''network''"
  "\<not> str_includes (''Server error '' @ show_nat k @ '' after '' @ show_nat n @ '' retries'') ''fetch failed''"
proof -
  have w: "CHR ''w'' \<notin> set (show_nat j)" and h: "CHR ''h'' \<notin> set (show_nat j)" for j
    using show_nat_digits [of "CHR ''w''" j] show_nat_digits [of "CHR ''h''" j]
    by (auto simp add: is_digit_def)
  show "\<not> str_includes (''Rate limit exceeded after '' @ show_nat n @ '' retries'') ''network''"
    using str_includes_set [of "''Rate limit exceeded after '' @ show_nat n @ '' retries''" "''network''"]
      w [of n] by auto
  show "\<not> str_includes (''Rate limit exceeded after '' @ show_nat n @ '' retries'') ''fetch failed''"
    using str_includes_set [of "''Rate limit exceeded after '' @ show_nat n @ '' retries''" "''fetch failed''"]
      h [of n] by auto
  show "\<not> str_includes (''Server error '' @ show_nat k @ '' after '' @ show_nat n @ '' retries'') ''network''"
    using str_includes_set [of "''Server error '' @ show_nat k @ '' after '' @ show_nat n @ '' retries''" "''network''"]
      w [of n] w [of k] by auto
  show "\<not> str_includes (''Server error '' @ show_nat k @ '' after '' @ show_nat n @ '' retries'') ''fetch failed''"
    using str_includes_set [of "''Server error '' @ show_nat k @ '' after '' @ show_nat n @ '' retries''" "''fetch failed''"]
      h [of n] h [of k] by auto
qed

lemma exhausted_message_plain:
  "\<not> str_includes (exhausted_message cfg r) ''fetch failed''"
  "\<not> str_includes (exhausted_message cfg r) ''network''"
  using exhausted_message_not_network(1,2) [of "maxRetries cfg"]
    exhausted_message_not_network(3,4) [of "status r" "maxRetries cfg"]
  by (simp_all add: exhausted_message_def del: str_includes.simps append.simps)

lemma map_filter_append: "List.map_filter f (xs @ ys) = List.map_filter f xs @ List.map_filter f ys"
  by (simp add: List.map_filter_def)

lemma map_filter_total: "List.map_filter (\<lambda>x. Some (g x)) xs = map g xs"
  by (induction xs) (simp_all add: List.map_filter_def)

lemma rateLimit_quiet:
  assumes "\<And>d. f (RateLimitWait d) = None"
  shows "List.map_filter f (events (rateLimit e cfg c)) = List.map_filter f (events c)"
  using assms
  by (simp add: rateLimit_def read_Date_now_def log_event_def Let_def map_filter_append)

lemma try_block_retryable:
  assumes "fetch e (fetches c) url = Resolved r" and "retryable r"
  shows "fst (try_block e cfg url retryCount c) =
           (if retryCount < maxRetries cfg then Retries else Throws (exhausted_message cfg r))"
    and "fetches (snd (try_block e cfg url retryCount c)) = Suc (fetches c)"
    and "requestCount (snd (try_block e cfg url retryCount c)) = requestCount c"
    and "events (snd (try_block e cfg url retryCount c)) =
           events c @ [Fetch url, retry_event r retryCount]"
  using assms
  by (auto simp add: try_block_def call_fetch_def log_event_def Let_def waitTime_429_def
      retryable_def retry_event_def exhausted_message_def)

lemma try_block_waits:
  assumes "fetch e (fetches c) url = Resolved r" and "retryable r"
    and "\<And>u. f (Fetch u) = None"
  shows "List.map_filter f (events (snd (try_block e cfg url retryCount c))) =
           List.map_filter f (events c) @
           List.map_filter (\<lambda>k. nth_wait f e url (fetches c) k) [retryCount]"
  using assms(3)
  by (auto simp add: try_block_retryable(4) [OF assms(1,2)] nth_wait_def assms(1)
      List.map_filter_def)

lemma fetchWithRetry_Returns:
  "try_block e cfg url retryCount (rateLimit e cfg c) = (Returns response, c1) \<Longrightarrow>
   fetchWithRetry e cfg url retryCount c = (Inr response, c1)"
  by (subst fetchWithRetry.simps) simp

lemma fetchWithRetry_Retries:
  "try_block e cfg url retryCount (rateLimit e cfg c) = (Retries, c1) \<Longrightarrow>
   fetchWithRetry e cfg url retryCount c = fetchWithRetry e cfg url (Suc retryCount) c1"
  by (subst fetchWithRetry.simps) simp

lemma fetchWithRetry_Throws:
  "try_block e cfg url retryCount (rateLimit e cfg c) = (Throws message, c1) \<Longrightarrow>
   \<not> str_includes message ''fetch failed'' \<Longrightarrow> \<not> str_includes message ''network'' \<Longrightarrow>
   fetchWithRetry e cfg url retryCount c = (Inl message, c1)"
  by (subst fetchWithRetry.simps) simp

lemma fetchWithRetry_Throws_network:
  "try_block e cfg url retryCount (rateLimit e cfg c) = (Throws message, c1) \<Longrightarrow>
   str_includes message ''fetch failed'' \<or> str_includes message ''network'' \<Longrightarrow>
   fetchWithRetry e cfg url retryCount c =
     (if retryCount < maxRetries cfg
      then fetchWithRetry e cfg url (Suc retryCount)
             (log_event (NetworkErrorWait (2 ^ retryCount * 1000)) c1)
      else (Inl message, log_event (NetworkErrorWait (2 ^ retryCount * 1000)) c1))"
  by (subst fetchWithRetry.simps) (simp add: Let_def)


lemma map_filter_cong_on:
  "(\<And>k. k \<in> set ks \<Longrightarrow> g k = h k) \<Longrightarrow> List.map_filter g ks = List.map_filter h ks"
  by (induction ks) (simp_all add: List.map_filter_def)

lemma fetchWithRetry_retryable:
  assumes always: "\<And>n. \<exists>r. fetch e n url = Resolved r \<and> retryable r"
    and quiet: "\<And>d. f (RateLimitWait d) = None" "\<And>u. f (Fetch u) = None"
    and le: "retryCount \<le> maxRetries cfg"
    and last: "fetch e (fetches c + (maxRetries cfg - retryCount)) url = Resolved final"
  shows "fst (fetchWithRetry e cfg url retryCount c) = Inl (exhausted_message cfg final) \<and>
         fetches (snd (fetchWithRetry e cfg url retryCount c)) =
           fetches c + (Suc (maxRetries cfg) - retryCount) \<and>
         requestCount (snd (fetchWithRetry e cfg url retryCount c)) =
           requestCount c + (Suc (maxRetries cfg) - retryCount) \<and>
         List.map_filter f (events (snd (fetchWithRetry e cfg url retryCount c))) =
           List.map_filter f (events c) @
           List.map_filter (\<lambda>k. nth_wait f e url (fetches c + (k - retryCount)) k)
             [retryCount..<Suc (maxRetries cfg)]"
  using le last
proof (induction "maxRetries cfg - retryCount" arbitrary: retryCount c)
  case 0
  then have rc: "retryCount = maxRetries cfg" by simp
  have r: "fetch e (fetches c) url = Resolved final"
    using "0.prems"(2) rc by simp
  have ry: "retryable final"
    using always [of "fetches c"] r by auto
  let ?c = "rateLimit e cfg c"
  have r': "fetch e (fetches ?c) url = Resolved final"
    using r by (simp add: rateLimit_frame)
  obtain a c1 where t: "try_block e cfg url retryCount ?c = (a, c1)"
    by (cases "try_block e cfg url retryCount ?c")
  have "a = Throws (exhausted_message cfg final)"
    using try_block_retryable(1) [OF r' ry, of cfg retryCount] t rc by simp
  with t have t': "try_block e cfg url retryCount ?c = (Throws (exhausted_message cfg final), c1)"
    by simp
  have c1: "fetches c1 = Suc (fetches c)" "requestCount c1 = Suc (requestCount c)"
    using try_block_retryable(2,3) [OF r' ry, of cfg retryCount] t
    by (simp_all add: rateLimit_frame)
  have waits: "List.map_filter f (events c1) =
      List.map_filter f (events c) @
      List.map_filter (\<lambda>k. nth_wait f e url (fetches c) k) [retryCount]"
    using try_block_waits [where f = f, OF r' ry quiet(2), of cfg retryCount] t
    by (simp add: rateLimit_frame rateLimit_quiet [of f, OF quiet(1)])
  have step: "fetchWithRetry e cfg url retryCount c = (Inl (exhausted_message cfg final), c1)"
    using t' exhausted_message_plain [of cfg final] by (intro fetchWithRetry_Throws)
  have one: "[retryCount..<Suc (maxRetries cfg)] = [retryCount]"
    using rc by simp
  have "List.map_filter (\<lambda>k. nth_wait f e url (fetches c + (k - retryCount)) k) [retryCount] =
      List.map_filter (\<lambda>k. nth_wait f e url (fetches c) k) [retryCount]"
    by (rule map_filter_cong_on) simp
  then show ?case
    unfolding step one by (simp add: c1 rc waits)
next
  case (Suc n)
  then have lt: "retryCount < maxRetries cfg" by simp
  obtain r where r: "fetch e (fetches c) url = Resolved r" and ry: "retryable r"
    using always by blast
  let ?c = "rateLimit e cfg c"
  have r': "fetch e (fetches ?c) url = Resolved r"
    using r by (simp add: rateLimit_frame)
  obtain a c1 where t: "try_block e cfg url retryCount ?c = (a, c1)"
    by (cases "try_block e cfg url retryCount ?c")
  have a: "a = Retries"
    using try_block_retryable(1) [OF r' ry, of cfg retryCount] t lt by simp
  have c1: "fetches c1 = Suc (fetches c)" "requestCount c1 = Suc (requestCount c)"
    using try_block_retryable(2,3) [OF r' ry, of cfg retryCount] t
    by (simp_all add: rateLimit_frame)
  have waits: "List.map_filter f (events c1) =
      List.map_filter f (events c) @
      List.map_filter (\<lambda>k. nth_wait f e url (fetches c) k) [retryCount]"
    using try_block_waits [where f = f, OF r' ry quiet(2), of cfg retryCount] t
    by (simp add: rateLimit_frame rateLimit_quiet [of f, OF quiet(1)])
  have count: "Suc k + (Suc (maxRetries cfg) - Suc retryCount) =
      k + (Suc (maxRetries cfg) - retryCount)" for k
    using lt by arith
  have last': "fetch e (fetches c1 + (maxRetries cfg - Suc retryCount)) url = Resolved final"
  proof -
    have "fetches c1 + (maxRetries cfg - Suc retryCount) = fetches c + (maxRetries cfg - retryCount)"
      unfolding c1 using lt by arith
    then show ?thesis using Suc.prems(2) by (simp only:)
  qed
  have IH: "fst (fetchWithRetry e cfg url (Suc retryCount) c1) = Inl (exhausted_message cfg final) \<and>
         fetches (snd (fetchWithRetry e cfg url (Suc retryCount) c1)) =
           fetches c1 + (Suc (maxRetries cfg) - Suc retryCount) \<and>
         requestCount (snd (fetchWithRetry e cfg url (Suc retryCount) c1)) =
           requestCount c1 + (Suc (maxRetries cfg) - Suc retryCount) \<and>
         List.map_filter f (events (snd (fetchWithRetry e cfg url (Suc retryCount) c1))) =
           List.map_filter f (events c1) @
           List.map_filter (\<lambda>k. nth_wait f e url (fetches c1 + (k - Suc retryCount)) k)
             [Suc retryCount..<Suc (maxRetries cfg)]"
    using Suc.hyps(1) [of "Suc retryCount" c1] Suc.hyps(2) lt last' by simp
  have step: "fetchWithRetry e cfg url retryCount c = fetchWithRetry e cfg url (Suc retryCount) c1"
    using t a by (intro fetchWithRetry_Retries) simp
  have shift: "List.map_filter (\<lambda>k. nth_wait f e url (fetches c1 + (k - Suc retryCount)) k)
             [Suc retryCount..<Suc (maxRetries cfg)] =
        List.map_filter (\<lambda>k. nth_wait f e url (fetches c + (k - retryCount)) k)
             [Suc retryCount..<Suc (maxRetries cfg)]"
  proof (rule map_filter_cong_on)
    fix k assume "k \<in> set [Suc retryCount..<Suc (maxRetries cfg)]"
    then have "fetches c1 + (k - Suc retryCount) = fetches c + (k - retryCount)"
      unfolding c1 by auto
    then show "nth_wait f e url (fetches c1 + (k - Suc retryCount)) k =
               nth_wait f e url (fetches c + (k - retryCount)) k"
      by (simp only:)
  qed
  have head: "List.map_filter (\<lambda>k. nth_wait f e url (fetches c) k) [retryCount] =
      List.map_filter (\<lambda>k. nth_wait f e url (fetches c + (k - retryCount)) k) [retryCount]"
    by (rule map_filter_cong_on) simp
  have split: "[retryCount..<Suc (maxRetries cfg)] =
      [retryCount] @ [Suc retryCount..<Suc (maxRetries cfg)]"
    using lt by (simp add: upt_conv_Cons)
  have "List.map_filter f (events (snd (fetchWithRetry e cfg url retryCount c))) =
      List.map_filter f (events c) @
      List.map_filter (\<lambda>k. nth_wait f e url (fetches c + (k - retryCount)) k)
        [retryCount..<Suc (maxRetries cfg)]"
    unfolding step split map_filter_append
    using IH by (simp only: waits shift head append_assoc)
  moreover have "fetches (snd (fetchWithRetry e cfg url retryCount c)) =
      fetches c + (Suc (maxRetries cfg) - retryCount)"
    unfolding step using IH by (simp only: c1 count)
  moreover have "requestCount (snd (fetchWithRetry e cfg url retryCount c)) =
      requestCount c + (Suc (maxRetries cfg) - retryCount)"
    unfolding step using IH by (simp only: c1 count)
  moreover have "fst (fetchWithRetry e cfg url retryCount c) = Inl (exhausted_message cfg final)"
    unfolding step using IH by (simp only:)
  ultimately show ?case by (simp only: simp_thms)
qed

lemma radix_digit_decimal: "is_digit c \<Longrightarrow> radix_digit 10 c = Some (digit_value c)"
  by (auto simp add: radix_digit_def is_digit_def digit_value_def Let_def)

lemma digit_not_space: "is_digit c \<Longrightarrow> \<not> is_StrWhiteSpaceChar c"
  by (auto simp add: is_digit_def is_StrWhiteSpaceChar_def)

lemma digit_not_sign: "is_digit c \<Longrightarrow> c \<noteq> CHR ''-'' \<and> c \<noteq> CHR ''+'' \<and> c \<noteq> CHR ''x'' \<and> c \<noteq> CHR ''X''"
  by (auto simp add: is_digit_def)

lemma radix_value_decimal:
  "list_all is_digit Z \<Longrightarrow>
   foldl (\<lambda>n c. 10 * n + (case radix_digit 10 c of Some d \<Rightarrow> d | None \<Rightarrow> 0)) a Z =
   foldl (\<lambda>n c. 10 * n + digit_value c) a Z"
  by (induction Z arbitrary: a) (simp_all add: radix_digit_decimal)

lemma takeWhile_digits:
  "list_all is_digit Z \<Longrightarrow> takeWhile (\<lambda>c. \<exists>d. radix_digit 10 c = Some d) Z = Z"
  by (induction Z) (simp_all add: radix_digit_decimal)

lemma parseInt_decimal:
  assumes "is_decimal h"
  shows "parseInt h = double_of_int (int (decimal_value h))"
proof -
  from assms obtain c cs where h: "h = c # cs" and c: "is_digit c" and cs: "list_all is_digit cs"
    by (cases h) (auto simp add: is_decimal_def)
  have all: "list_all is_digit h" using h c cs by simp
  have drop: "dropWhile is_StrWhiteSpaceChar h = h"
    using h digit_not_space [OF c] by simp
  have nohex: "take 2 h \<noteq> ''0x''" "take 2 h \<noteq> ''0X''"
  proof -
    show "take 2 h \<noteq> ''0x''"
    proof (cases cs)
      case Nil
      with h show ?thesis by simp
    next
      case (Cons d ds)
      with cs have "is_digit d" by simp
      with h Cons digit_not_sign [of d] show ?thesis by auto
    qed
    show "take 2 h \<noteq> ''0X''"
    proof (cases cs)
      case Nil
      with h show ?thesis by simp
    next
      case (Cons d ds)
      with cs have "is_digit d" by simp
      with h Cons digit_not_sign [of d] show ?thesis by auto
    qed
  qed
  have sign: "hd h \<noteq> CHR ''-''" "hd h \<noteq> CHR ''+''"
    using h digit_not_sign [OF c] by simp_all
  have val: "radix_value 10 h = decimal_value h"
    by (simp add: radix_value_def decimal_value_def radix_value_decimal [OF all])
  have ne: "h \<noteq> []" using h by simp
  show ?thesis
    by (simp add: parseInt_def drop nohex sign takeWhile_digits [OF all] val ne Let_def)
qed

lemma double_of_small_int: "0 \<le> i \<Longrightarrow> i < 2 ^ 53 \<Longrightarrow> double_of_int i = Finite i"
proof -
  assume "0 \<le> i" and "i < 2 ^ 53"
  then have "nat \<bar>i\<bar> < 2 ^ 53"
    by (simp add: nat_less_iff)
  then have "nearest_double (nat \<bar>i\<bar>) = Some (nat \<bar>i\<bar>)"
    by (simp add: nearest_double_def)
  with \<open>0 \<le> i\<close> show ?thesis
    by (simp add: double_of_int_def)
qed

lemma waitTime_429_exact:
  assumes "exact_delay_seconds header"
  shows "waitTime_429 header attempt = Finite (retry_after_or_backoff header attempt)"
proof (cases header)
  case None
  then show ?thesis by (simp add: waitTime_429_def retry_after_or_backoff_def)
next
  case (Some h)
  with assms have dec: "is_decimal h" and small: "int (decimal_value h) * 1000 < 2 ^ 53"
    by (simp_all add: exact_delay_seconds_def)
  have ne: "h \<noteq> []" using dec by (simp add: is_decimal_def)
  have "int (decimal_value h) \<le> int (decimal_value h) * 1000" by simp
  then have "int (decimal_value h) < 2 ^ 53" using small by (rule le_less_trans)
  then have "parseInt h = Finite (int (decimal_value h))"
    by (simp add: parseInt_decimal [OF dec] double_of_small_int)
  then show ?thesis
    using small Some ne
    by (simp add: waitTime_429_def retry_after_or_backoff_def js_times_1000_def
        double_of_small_int)
qed

lemma upt_4: "[0..<Suc 3] = [0, 1, 2, 3]" "[0..<4] = [0, 1, 2, 3]"
  by (simp_all add: upt_rec)

lemma try_block_ok:
  assumes "fetch e (fetches c) url = Resolved r" and "status r < 400"
  shows "try_block e cfg url retryCount c =
           (Returns r, log_event (Fetch url) (c\<lparr>fetches := Suc (fetches c)\<rparr>))"
  using assms by (simp add: try_block_def call_fetch_def Let_def)

lemma searchIssues_paged:
  "fst (searchIssues (paged_server clock all) cfg key start 50 c) = Some (page_of all start 50)"
  "fetches (snd (searchIssues (paged_server clock all) cfg key start 50 c)) = Suc (fetches c)"
  "search_offsets (events (snd (searchIssues (paged_server clock all) cfg key start 50 c))) =
     search_offsets (events c) @ [start]"
proof -
  let ?e = "paged_server clock all"
  let ?url = "SearchUrl key start 50"
  let ?r = "\<lparr>status = 200, retryAfter = None, body_text = [],
       body_json = Some (page_of all start 50)\<rparr>"
  let ?c = "rateLimit ?e cfg c"
  have "fetch ?e (fetches ?c) ?url = Resolved ?r"
    by (simp add: paged_server_def)
  then have "try_block ?e cfg ?url 0 ?c =
      (Returns ?r, log_event (Fetch ?url) (?c\<lparr>fetches := Suc (fetches ?c)\<rparr>))"
    by (rule try_block_ok) simp
  then have f: "fetchWithRetry ?e cfg ?url 0 c =
      (Inr ?r, log_event (Fetch ?url) (?c\<lparr>fetches := Suc (fetches ?c)\<rparr>))"
    by (rule fetchWithRetry_Returns)
  show "fst (searchIssues ?e cfg key start 50 c) = Some (page_of all start 50)"
    by (simp add: searchIssues_def f response_ok_def)
  show "fetches (snd (searchIssues ?e cfg key start 50 c)) = Suc (fetches c)"
    by (simp add: searchIssues_def f response_ok_def log_event_def rateLimit_frame)
  show "search_offsets (events (snd (searchIssues ?e cfg key start 50 c))) =
     search_offsets (events c) @ [start]"
    by (simp add: searchIssues_def f response_ok_def log_event_def rateLimit_frame
        search_offsets_append search_offsets_single)
qed

lemma limit_reached_no_cap: "no_cap limit \<Longrightarrow> \<not> limit_reached limit xs"
  by (auto simp add: no_cap_def limit_reached_def)

lemma loop_step_paged:
  assumes "\<not> limit_reached limit (acc @ issues (page_of all start 50))"
  shows "getAllIssues_loop (paged_server clock all) cfg key limit (Suc fuel) acc start c =
     (if start + 50 < int (length all)
      then getAllIssues_loop (paged_server clock all) cfg key limit fuel
             (acc @ issues (page_of all start 50)) (start + 50)
             (snd (searchIssues (paged_server clock all) cfg key start 50 c))
      else Some (acc @ issues (page_of all start 50),
             snd (searchIssues (paged_server clock all) cfg key start 50 c)))"
proof -
  obtain a c1 where s: "searchIssues (paged_server clock all) cfg key start 50 c = (a, c1)"
    by (cases "searchIssues (paged_server clock all) cfg key start 50 c")
  with searchIssues_paged(1) [of clock all cfg key start c]
  have a: "a = Some (page_of all start 50)" by simp
  have t: "total (page_of all start 50) = int (length all)"
    by (simp add: page_of_def)
  show ?thesis
    using assms by (auto simp add: s a t Let_def)
qed

lemma page_append:
  "take (50 * j) all @ issues (page_of all (50 * int j) 50) = take (50 * j + 50) all"
proof -
  have "nat (50 * int j) = 50 * j" by simp
  then show ?thesis
    by (simp add: page_of_def take_add)
qed

lemma loop_paged:
  assumes "no_cap limit"
  shows "0 < fuel \<Longrightarrow> length all \<le> 50 * (j + fuel) \<Longrightarrow> 50 * j < length all \<or> j = 0 \<Longrightarrow>
    \<exists>c'. getAllIssues_loop (paged_server clock all) cfg key limit fuel (take (50 * j) all)
            (50 * int j) c = Some (all, c') \<and>
         search_offsets (events c') =
           search_offsets (events c) @
           map (\<lambda>i. 50 * int i) [j..<max (Suc j) ((length all + 49) div 50)] \<and>
         fetches c' = fetches c + (max (Suc j) ((length all + 49) div 50) - j)"
proof (induction fuel arbitrary: j c)
  case 0
  then show ?case by simp
next
  case (Suc fuel)
  let ?e = "paged_server clock all"
  let ?c1 = "snd (searchIssues ?e cfg key (50 * int j) 50 c)"
  let ?P = "(length all + 49) div 50"
  have nr: "\<not> limit_reached limit (take (50 * j) all @ issues (page_of all (50 * int j) 50))"
    using assms by (rule limit_reached_no_cap)
  note step = loop_step_paged [OF nr, of clock cfg key fuel c, unfolded page_append]
  show ?case
  proof (cases "50 * int j + 50 < int (length all)")
    case True
    then have more: "50 * (Suc j) < length all" by simp
    with Suc.prems have fuel: "0 < fuel" by (cases fuel) auto
    have bound: "length all \<le> 50 * (Suc j + fuel)" using Suc.prems by simp
    have "50 * j + 50 = 50 * Suc j" by simp
    then have acc: "take (50 * j + 50) all = take (50 * Suc j) all" by (simp only:)
    have st: "50 * int j + 50 = 50 * int (Suc j)" by simp
    obtain c' where c': "getAllIssues_loop ?e cfg key limit fuel (take (50 * Suc j) all)
            (50 * int (Suc j)) ?c1 = Some (all, c')"
      "search_offsets (events c') =
           search_offsets (events ?c1) @ map (\<lambda>i. 50 * int i) [Suc j..<max (Suc (Suc j)) ?P]"
      "fetches c' = fetches ?c1 + (max (Suc (Suc j)) ?P - Suc j)"
      using Suc.IH [OF fuel bound disjI1 [OF more], of ?c1] by (elim exE conjE)
    have "Suc (Suc j) * 50 \<le> length all + 49" using more by simp
    then have P: "Suc (Suc j) \<le> ?P"
      by (simp only: less_eq_div_iff_mult_less_eq [of 50 "Suc (Suc j)" "length all + 49"] zero_less_numeral)
    then have mx: "max (Suc (Suc j)) ?P = ?P" "max (Suc j) ?P = ?P" by simp_all
    have upt: "[j..<?P] = j # [Suc j..<?P]"
      using P by (simp add: upt_conv_Cons)
    have "getAllIssues_loop ?e cfg key limit (Suc fuel) (take (50 * j) all) (50 * int j) c =
        Some (all, c')"
      unfolding step using True c'(1) by (simp only: acc st if_True)
    moreover have "search_offsets (events c') =
        search_offsets (events c) @ map (\<lambda>i. 50 * int i) [j..<max (Suc j) ?P]"
      unfolding c'(2) mx upt by (simp add: searchIssues_paged)
    moreover have "fetches c' = fetches c + (max (Suc j) ?P - j)"
      unfolding c'(3) mx using P by (simp add: searchIssues_paged)
    ultimately show ?thesis by blast
  next
    case False
    then have le: "length all \<le> 50 * j + 50" by simp
    then have whole: "take (50 * j + 50) all = all" by simp
    have "length all + 49 < Suc (Suc j) * 50" using le by simp
    then have "?P < Suc (Suc j)"
      by (simp only: div_less_iff_less_mult [of 50 "length all + 49" "Suc (Suc j)"] zero_less_numeral)
    then have P: "?P \<le> Suc j" by simp
    then have mx: "max (Suc j) ?P = Suc j" by simp
    have "getAllIssues_loop ?e cfg key limit (Suc fuel) (take (50 * j) all) (50 * int j) c =
        Some (all, ?c1)"
      unfolding step using False by (simp only: whole if_False)
    moreover have "search_offsets (events ?c1) =
        search_offsets (events c) @ map (\<lambda>i. 50 * int i) [j..<max (Suc j) ?P]"
      unfolding mx by (simp add: searchIssues_paged)
    moreover have "fetches ?c1 = fetches c + (max (Suc j) ?P - j)"
      unfolding mx by (simp add: searchIssues_paged)
    ultimately show ?thesis by blast
  qed
qed

lemma loop_stops_on_failure:
  "searchIssues e cfg key start 50 c = (None, c1) \<Longrightarrow>
   getAllIssues_loop e cfg key limit (Suc fuel) acc start c = Some (acc, c1)"
  by simp

lemma loop_zero_cap:
  "getAllIssues_loop e cfg key (Some 0) fuel acc start c =
   getAllIssues_loop e cfg key None fuel acc start c"
proof (induction fuel arbitrary: acc start c)
  case 0
  show ?case by simp
next
  case (Suc fuel)
  show ?case
    by (simp add: Suc.IH limit_reached_def Let_def split: prod.splits option.splits)
qed

lemma fetchWithRetry_rate_limited:
  assumes "\<And>n. \<exists>r. fetch e n url = Resolved r \<and> status r = 429"
  shows "fst (fetchWithRetry e cfg url 0 c) =
           Inl (''Rate limit exceeded after '' @ show_nat (maxRetries cfg) @ '' retries'') \<and>
         fetches (snd (fetchWithRetry e cfg url 0 c)) = fetches c + Suc (maxRetries cfg) \<and>
         requestCount (snd (fetchWithRetry e cfg url 0 c)) = requestCount c + Suc (maxRetries cfg) \<and>
         rate_limit_waits (events (snd (fetchWithRetry e cfg url 0 c))) =
           rate_limit_waits (events c) @
           map (\<lambda>k. waitTime_429 (header_of e url (fetches c + k)) k) [0..<Suc (maxRetries cfg)]"
proof -
  have always: "\<exists>r. fetch e n url = Resolved r \<and> retryable r" for n
    using assms [of n] by (auto simp add: retryable_def)
  obtain final where final: "fetch e (fetches c + (maxRetries cfg - 0)) url = Resolved final"
    and st: "status final = 429"
    using assms [of "fetches c + (maxRetries cfg - 0)"] by auto
  have msg: "exhausted_message cfg final =
      ''Rate limit exceeded after '' @ show_nat (maxRetries cfg) @ '' retries''"
    using st by (simp add: exhausted_message_def)
  have delay: "nth_wait rate_limit_wait e url n k = Some (waitTime_429 (header_of e url n) k)"
    for n k
    using assms [of n] by (auto simp add: nth_wait_def retry_event_def header_of_def)
  have run: "fst (fetchWithRetry e cfg url 0 c) = Inl (exhausted_message cfg final) \<and>
      fetches (snd (fetchWithRetry e cfg url 0 c)) = fetches c + (Suc (maxRetries cfg) - 0) \<and>
      requestCount (snd (fetchWithRetry e cfg url 0 c)) =
        requestCount c + (Suc (maxRetries cfg) - 0) \<and>
      List.map_filter rate_limit_wait (events (snd (fetchWithRetry e cfg url 0 c))) =
        List.map_filter rate_limit_wait (events c) @
        List.map_filter (\<lambda>k. nth_wait rate_limit_wait e url (fetches c + (k - 0)) k)
          [0..<Suc (maxRetries cfg)]"
    by (rule fetchWithRetry_retryable [OF always _ _ _ final]) simp_all
  have waits: "rate_limit_waits (events (snd (fetchWithRetry e cfg url 0 c))) =
      rate_limit_waits (events c) @
      map (\<lambda>k. waitTime_429 (header_of e url (fetches c + k)) k) [0..<Suc (maxRetries cfg)]"
    using run by (simp add: rate_limit_waits_def delay map_filter_total del: upt_Suc)
  show ?thesis
    using run waits by (simp add: msg del: upt_Suc)
qed

lemma client_error_not_retried:
  assumes "fetch e (fetches c) url = Resolved r"
    and "400 \<le> status r" and "status r < 500" and "status r \<noteq> 429"
    and "message = ''Client error '' @ show_nat (status r) @ '': '' @ body_text r"
    and "\<not> str_includes message ''fetch failed''" and "\<not> str_includes message ''network''"
  shows "fst (fetchWithRetry e cfg url retryCount c) = Inl message \<and>
         fetches (snd (fetchWithRetry e cfg url retryCount c)) = Suc (fetches c) \<and>
         retry_waits (events (snd (fetchWithRetry e cfg url retryCount c))) =
           retry_waits (events c)"
proof -
  let ?c = "rateLimit e cfg c"
  have "fetch e (fetches ?c) url = Resolved r"
    using assms(1) by (simp add: rateLimit_frame)
  then have "try_block e cfg url retryCount ?c =
      (Throws message, log_event (Fetch url) (?c\<lparr>fetches := Suc (fetches ?c)\<rparr>))"
    using assms(2-5) by (simp add: try_block_def call_fetch_def Let_def)
  then have "fetchWithRetry e cfg url retryCount c =
      (Inl message, log_event (Fetch url) (?c\<lparr>fetches := Suc (fetches ?c)\<rparr>))"
    using assms(6,7) by (rule fetchWithRetry_Throws)
  then show ?thesis
    by (simp add: log_event_def rateLimit_frame retry_waits_append retry_waits_single)
qed

lemma not_found_search:
  "fst (searchIssues not_found default_config ''KAFKA'' 100 50 new_JiraApiClient) = None"
proof -
  have digits: "show_nat 404 = ''404''"
    by code_simp
  have r: "fetch not_found (fetches new_JiraApiClient) (SearchUrl ''KAFKA'' 100 50) =
      Resolved \<lparr>status = 404, retryAfter = None, body_text = ''Not Found'', body_json = None\<rparr>"
    by (simp add: not_found_def)
  have "fst (fetchWithRetry not_found default_config (SearchUrl ''KAFKA'' 100 50) 0
      new_JiraApiClient) = Inl ''Client error 404: Not Found''"
    using client_error_not_retried [OF r, of "''Client error 404: Not Found''" default_config 0]
    by (simp add: digits)
  then show ?thesis
    by (cases "fetchWithRetry not_found default_config (SearchUrl ''KAFKA'' 100 50) 0
          new_JiraApiClient")
       (simp add: searchIssues_def)
qed

subsection \<open>Claims about the client\<close>

text \<open>
  C2, at an input where the code departs from it. The server answers every request
  with status 404 and the body \<^verbatim>\<open>network unreachable\<close>. The 4xx branch throws
  \<^verbatim>\<open>Client error 404: network unreachable\<close> inside the \<^verbatim>\<open>try\<close>; the \<^verbatim>\<open>catch\<close> block
  finds \<^verbatim>\<open>network\<close> in that message and treats it as a network failure. The client
  calls \<^verbatim>\<open>fetch\<close> four times and waits 1, 2, 4 and 8 seconds before the error reaches
  the caller. (Where the message contains neither \<^verbatim>\<open>network\<close> nor \<^verbatim>\<open>fetch failed\<close> the
  error is thrown after one call and no wait: lemma \<open>client_error_not_retried\<close>.)
\<close>

theorem client_error_with_network_in_body_is_retried:
  "fst (fetchWithRetry always_404_network default_config (SearchUrl ''KAFKA'' 0 50) 0
     new_JiraApiClient) = Inl ''Client error 404: network unreachable'' \<and>
   fetches (snd (fetchWithRetry always_404_network default_config (SearchUrl ''KAFKA'' 0 50) 0
     new_JiraApiClient)) = 4 \<and>
   retry_waits (events (snd (fetchWithRetry always_404_network default_config
     (SearchUrl ''KAFKA'' 0 50) 0 new_JiraApiClient))) =
     [Some 1000, Some 2000, Some 4000, Some 8000]"
proof -
  have digits: "show_nat 404 = ''404''"
    by code_simp
  show ?thesis
    by (simp add: digits fetchWithRetry.simps try_block_def rateLimit_def read_Date_now_def call_fetch_def log_event_def always_404_network_def default_config_def new_JiraApiClient_def Let_def retry_waits_single)
qed

text \<open>
  C3, as the code has it. Let every call of \<^verbatim>\<open>fetch\<close> for the URL resolve to a 429
  response, with any headers. Then \<^verbatim>\<open>fetchWithRetry\<close> calls \<^verbatim>\<open>fetch\<close> once and
  retries \<open>maxRetries\<close> more times (3 by default) and fails with
  \<^verbatim>\<open>Rate limit exceeded after <maxRetries> retries\<close>. After the \<open>k\<close>-th response it
  passes to \<^verbatim>\<open>setTimeout\<close> the double \<^verbatim>\<open>parseInt(header) * 1000\<close> where that response
  has a non-empty \<^verbatim>\<open>Retry-After\<close> header and \<open>2 ^ k\<close> seconds otherwise; the wait after
  the last response is made as well, before the failure. For a header that is a number
  of seconds whose milliseconds are below \<open>2 ^ 53\<close> that double is the header's delay.
\<close>

theorem rate_limit_retries_amended:
  assumes "\<And>n. \<exists>r. fetch e n url = Resolved r \<and> status r = 429"
  shows "fst (fetchWithRetry e cfg url 0 c) =
           Inl (''Rate limit exceeded after '' @ show_nat (maxRetries cfg) @ '' retries'') \<and>
         fetches (snd (fetchWithRetry e cfg url 0 c)) = fetches c + Suc (maxRetries cfg) \<and>
         requestCount (snd (fetchWithRetry e cfg url 0 c)) = requestCount c + Suc (maxRetries cfg) \<and>
         rate_limit_waits (events (snd (fetchWithRetry e cfg url 0 c))) =
           rate_limit_waits (events c) @
           map (\<lambda>k. waitTime_429 (header_of e url (fetches c + k)) k) [0..<Suc (maxRetries cfg)] \<and>
         (\<forall>header attempt. exact_delay_seconds header \<longrightarrow>
            waitTime_429 header attempt = Finite (retry_after_or_backoff header attempt))"
  using fetchWithRetry_rate_limited [OF assms, of cfg c]
  by (simp add: waitTime_429_exact del: upt_Suc)

theorem rate_limit_retries_amended_witness:
  "(\<forall>n. \<exists>r. fetch always_429 n (SearchUrl ''KAFKA'' 0 50) = Resolved r \<and> status r = 429) \<and>
   fst (fetchWithRetry always_429 default_config (SearchUrl ''KAFKA'' 0 50) 0 new_JiraApiClient) =
     Inl ''Rate limit exceeded after 3 retries'' \<and>
   fetches (snd (fetchWithRetry always_429 default_config (SearchUrl ''KAFKA'' 0 50) 0
     new_JiraApiClient)) = 4 \<and>
   rate_limit_waits (events (snd (fetchWithRetry always_429 default_config
     (SearchUrl ''KAFKA'' 0 50) 0 new_JiraApiClient))) =
     [Finite 1000, Finite 5000, Finite 4000, Finite 8000] \<and>
   exact_delay_seconds (Some ''5'') \<and>
   waitTime_429 (Some ''5'') 1 = Finite (retry_after_or_backoff (Some ''5'') 1) \<and>
   retry_after_or_backoff (Some ''5'') 1 = 5000"
proof -
  have hyp: "\<exists>r. fetch always_429 n (SearchUrl ''KAFKA'' 0 50) = Resolved r \<and> status r = 429" for n
    by (simp add: always_429_def)
  have three: "show_nat 3 = ''3''"
    by code_simp
  have hdr: "header_of always_429 url n = (if n = 1 then Some ''5'' else None)" for url n
    by (simp add: header_of_def always_429_def)
  have five: "decimal_value ''5'' = 5"
    by (simp add: decimal_value_def digit_value_def)
  have exact: "exact_delay_seconds (Some ''5'')"
    by (simp add: exact_delay_seconds_def is_decimal_def is_digit_def five)
  have spec: "retry_after_or_backoff (Some ''5'') k = 5000" for k
    by (simp add: retry_after_or_backoff_def five)
  have none: "waitTime_429 None k = Finite (2 ^ k * 1000)" for k
    by (simp add: waitTime_429_def)
  show ?thesis
    using rate_limit_retries_amended [of always_429 "SearchUrl ''KAFKA'' 0 50" default_config
        new_JiraApiClient, OF hyp] hyp exact
    by (simp add: default_config_def new_JiraApiClient_def three upt_4 hdr
        rate_limit_waits_single spec none del: upt_Suc)
qed

text \<open>
  C3 as stated fails. The server of \<open>odd_429\<close> answers 429 each time. Its first
  \<^verbatim>\<open>Retry-After\<close> is 9007199254740993 seconds: \<^verbatim>\<open>parseInt\<close> returns the double
  9007199254740992 and the client passes 9007199254740992000 ms to \<^verbatim>\<open>setTimeout\<close>,
  not the 9007199254740993000 ms the server asked for. Its second header is an HTTP
  date and the delay is \<^verbatim>\<open>NaN\<close>; its third is \<^verbatim>\<open>1.5\<close> and the delay is 1000 ms; its
  fourth header is present and empty and the delay is \<open>2 ^ 3\<close> seconds.
\<close>

theorem rate_limit_retries_counterexample:
  "header_of odd_429 (SearchUrl ''KAFKA'' 0 50) 0 = Some ''9007199254740993'' \<and>
   is_decimal ''9007199254740993'' \<and>
   retry_after_or_backoff (Some ''9007199254740993'') 0 = 9007199254740993000 \<and>
   rate_limit_waits (events (snd (fetchWithRetry odd_429 default_config
     (SearchUrl ''KAFKA'' 0 50) 0 new_JiraApiClient))) =
     [Finite 9007199254740992000, NaN, Finite 1000, Finite 8000] \<and>
   rate_limit_waits (events (snd (fetchWithRetry odd_429 default_config
     (SearchUrl ''KAFKA'' 0 50) 0 new_JiraApiClient))) ! 0 \<noteq>
     Finite (retry_after_or_backoff (header_of odd_429 (SearchUrl ''KAFKA'' 0 50) 0) 0)"
proof -
  have hdr: "header_of odd_429 url n =
      (if n = 0 then Some ''9007199254740993''
       else if n = 1 then Some ''Wed, 21 Oct 2015 07:28:00 GMT''
       else if n = 2 then Some ''1.5''
       else Some [])" for url n
    by (simp add: header_of_def odd_429_def)
  have big: "decimal_value ''9007199254740993'' = 9007199254740993"
    by (simp add: decimal_value_def digit_value_def)
  have dec: "is_decimal ''9007199254740993''"
    by (simp add: is_decimal_def is_digit_def)
  have nearest: "nearest_double 9007199254740993 = Some 9007199254740992"
    by (simp add: nearest_double_def Let_def)
  have "parseInt ''9007199254740993'' = Finite 9007199254740992"
    by (simp add: parseInt_def Let_def radix_value_def radix_digit_def is_StrWhiteSpaceChar_def
        double_of_int_def nearest)
  moreover have "parseInt ''Wed, 21 Oct 2015 07:28:00 GMT'' = NaN"
    by (simp add: parseInt_def Let_def radix_digit_def is_StrWhiteSpaceChar_def)
  moreover have "parseInt ''1.5'' = Finite 1"
    by (simp add: parseInt_def Let_def radix_value_def radix_digit_def is_StrWhiteSpaceChar_def
        double_of_int_def nearest_double_def)
  ultimately have parsed:
    "js_times_1000 (parseInt ''9007199254740993'') = Finite 9007199254740992000"
    "js_times_1000 (parseInt ''Wed, 21 Oct 2015 07:28:00 GMT'') = NaN"
    "js_times_1000 (parseInt ''1.5'') = Finite 1000"
    by (simp_all add: js_times_1000_def double_of_int_def nearest_double_def Let_def)
  have always: "\<exists>r. fetch odd_429 n (SearchUrl ''KAFKA'' 0 50) = Resolved r \<and> status r = 429" for n
    by (simp add: odd_429_def)
  have waits: "rate_limit_waits (events (snd (fetchWithRetry odd_429 default_config
     (SearchUrl ''KAFKA'' 0 50) 0 new_JiraApiClient))) =
     [Finite 9007199254740992000, NaN, Finite 1000, Finite 8000]"
    using fetchWithRetry_rate_limited [of odd_429 "SearchUrl ''KAFKA'' 0 50" default_config
        new_JiraApiClient, OF always]
    by (simp add: default_config_def new_JiraApiClient_def upt_4 hdr rate_limit_waits_single
        waitTime_429_def parsed del: upt_Suc)
  show ?thesis
    unfolding waits by (simp add: hdr dec retry_after_or_backoff_def big)
qed

text \<open>
  C4. Let every call of \<^verbatim>\<open>fetch\<close> for the URL resolve to a 5xx response, with any
  headers. Then the waits are \<open>2 ^ k\<close> seconds for \<open>k = 0, 1, \<dots>, maxRetries\<close>,
  whatever \<^verbatim>\<open>Retry-After\<close> says; the client calls \<^verbatim>\<open>fetch\<close> once and retries
  \<open>maxRetries\<close> more times, and fails with \<^verbatim>\<open>Server error <status> after <maxRetries>
  retries\<close>, the status being that of the last response.
\<close>

theorem server_error_backoff:
  assumes "\<And>n. \<exists>r. fetch e n url = Resolved r \<and> 500 \<le> status r \<and> status r < 600"
    and "fetch e (fetches c + maxRetries cfg) url = Resolved final"
  shows "fst (fetchWithRetry e cfg url 0 c) =
           Inl (''Server error '' @ show_nat (status final) @ '' after '' @
                show_nat (maxRetries cfg) @ '' retries'') \<and>
         fetches (snd (fetchWithRetry e cfg url 0 c)) = fetches c + Suc (maxRetries cfg) \<and>
         requestCount (snd (fetchWithRetry e cfg url 0 c)) = requestCount c + Suc (maxRetries cfg) \<and>
         retry_waits (events (snd (fetchWithRetry e cfg url 0 c))) =
           retry_waits (events c) @ map (\<lambda>k. Some (2 ^ k * 1000)) [0..<Suc (maxRetries cfg)]"
proof -
  have always: "\<exists>r. fetch e n url = Resolved r \<and> retryable r" for n
    using assms(1) [of n] by (auto simp add: retryable_def)
  have final: "fetch e (fetches c + (maxRetries cfg - 0)) url = Resolved final"
    using assms(2) by simp
  have st: "status final \<noteq> 429"
    using assms(1) [of "fetches c + maxRetries cfg"] assms(2) by auto
  have msg: "exhausted_message cfg final =
      ''Server error '' @ show_nat (status final) @ '' after '' @
        show_nat (maxRetries cfg) @ '' retries''"
    using st by (simp add: exhausted_message_def)
  have delay: "nth_wait retry_wait e url n k = Some (Some (2 ^ k * 1000))" for n k
    using assms(1) [of n] by (auto simp add: nth_wait_def retry_event_def)
  have run: "fst (fetchWithRetry e cfg url 0 c) = Inl (exhausted_message cfg final) \<and>
      fetches (snd (fetchWithRetry e cfg url 0 c)) = fetches c + (Suc (maxRetries cfg) - 0) \<and>
      requestCount (snd (fetchWithRetry e cfg url 0 c)) =
        requestCount c + (Suc (maxRetries cfg) - 0) \<and>
      List.map_filter retry_wait (events (snd (fetchWithRetry e cfg url 0 c))) =
        List.map_filter retry_wait (events c) @
        List.map_filter (\<lambda>k. nth_wait retry_wait e url (fetches c + (k - 0)) k)
          [0..<Suc (maxRetries cfg)]"
    by (rule fetchWithRetry_retryable [OF always _ _ _ final]) simp_all
  have waits: "retry_waits (events (snd (fetchWithRetry e cfg url 0 c))) =
      retry_waits (events c) @ map (\<lambda>k. Some (2 ^ k * 1000)) [0..<Suc (maxRetries cfg)]"
    using run by (simp add: retry_waits_def delay map_filter_total del: upt_Suc)
  show ?thesis
    using run waits by (simp add: msg del: upt_Suc)
qed

theorem server_error_backoff_witness:
  "fst (fetchWithRetry always_503 default_config (SearchUrl ''KAFKA'' 0 50) 0 new_JiraApiClient) =
     Inl ''Server error 503 after 3 retries'' \<and>
   fetches (snd (fetchWithRetry always_503 default_config (SearchUrl ''KAFKA'' 0 50) 0
     new_JiraApiClient)) = 4 \<and>
   retry_waits (events (snd (fetchWithRetry always_503 default_config (SearchUrl ''KAFKA'' 0 50) 0
     new_JiraApiClient))) = [Some 1000, Some 2000, Some 4000, Some 8000]"
proof -
  have hyp: "\<exists>r. fetch always_503 n (SearchUrl ''KAFKA'' 0 50) = Resolved r \<and>
      500 \<le> status r \<and> status r < 600" for n
    by (simp add: always_503_def)
  have last: "fetch always_503 (fetches new_JiraApiClient + maxRetries default_config)
      (SearchUrl ''KAFKA'' 0 50) =
      Resolved \<lparr>status = 503, retryAfter = Some ''120'', body_text = ''Service Unavailable'',
        body_json = None\<rparr>"
    by (simp add: always_503_def)
  have digits: "show_nat 3 = ''3''" "show_nat 503 = ''503''"
    by code_simp+
  show ?thesis
    using server_error_backoff [of always_503 "SearchUrl ''KAFKA'' 0 50" new_JiraApiClient
        default_config, OF hyp last]
    by (simp add: default_config_def new_JiraApiClient_def digits upt_4 retry_waits_single
        del: upt_Suc)
qed

text \<open>
  C5. Against a server that holds the issues \<open>all\<close> and reports \<open>total = length all\<close>,
  \<^verbatim>\<open>getAllIssues\<close> with no cap returns \<open>all\<close> after requests at the offsets
  \<open>0, 50, 100, \<dots>\<close>, one for each page (and one for an empty project), given fuel for
  that many passes. For 137 issues these are exactly three requests, at 0, 50 and 100,
  and 137 issues come back. Against any server and with any cap: when the search of a
  page fails, the loop ends with the issues accumulated so far, not with an error.
\<close>

theorem getAllIssues_pages_to_the_end:
  "(0 < fuel \<and> length all \<le> 50 * fuel \<longrightarrow>
      (\<exists>c'. getAllIssues (paged_server clock all) cfg key None fuel c = Some (all, c') \<and>
            search_offsets (events c') =
              search_offsets (events c) @
              map (\<lambda>i. 50 * int i) [0..<max 1 ((length all + 49) div 50)] \<and>
            fetches c' = fetches c + max 1 ((length all + 49) div 50))) \<and>
   (length all = 137 \<and> 3 \<le> fuel \<longrightarrow>
      (\<exists>c'. getAllIssues (paged_server clock all) cfg key None fuel c = Some (all, c') \<and>
            length all = 137 \<and>
            search_offsets (events c') = search_offsets (events c) @ [0, 50, 100] \<and>
            fetches c' = fetches c + 3)) \<and>
   (searchIssues e cfg key start 50 c = (None, c1) \<longrightarrow>
      getAllIssues_loop e cfg key limit (Suc fuel') acc start c = Some (acc, c1))"
proof -
  have general: "\<exists>c'. getAllIssues (paged_server clock all) cfg key None fuel c = Some (all, c') \<and>
            search_offsets (events c') =
              search_offsets (events c) @
              map (\<lambda>i. 50 * int i) [0..<max 1 ((length all + 49) div 50)] \<and>
            fetches c' = fetches c + max 1 ((length all + 49) div 50)"
    if "0 < fuel" "length all \<le> 50 * fuel"
    using loop_paged [of None fuel all 0 clock cfg key c] that
    by (simp add: getAllIssues_def no_cap_def)
  have pages: "max 1 ((length all + 49) div 50) = 3" "[0..<3] = [0, Suc 0, 2]"
    if "length all = 137"
    using that by (simp_all add: upt_rec)
  have concrete: "\<exists>c'. getAllIssues (paged_server clock all) cfg key None fuel c = Some (all, c') \<and>
            length all = 137 \<and>
            search_offsets (events c') = search_offsets (events c) @ [0, 50, 100] \<and>
            fetches c' = fetches c + 3"
    if "length all = 137" "3 \<le> fuel"
    using general that by (simp add: pages)
  show ?thesis
    using general concrete loop_stops_on_failure [of e cfg key start c c1 limit fuel' acc]
    by blast
qed

theorem getAllIssues_pages_to_the_end_witness:
  "(0::nat) < 3 \<and> length [0..<137] \<le> 50 * 3 \<and> length [0..<137] = 137 \<and>
   (\<exists>c'. getAllIssues (paged_server (\<lambda>n. 0) [0..<137]) default_config ''KAFKA'' None 3
           new_JiraApiClient = Some ([0..<137], c') \<and>
         search_offsets (events c') = [0, 50, 100] \<and> fetches c' = 3) \<and>
   fst (searchIssues not_found default_config ''KAFKA'' 100 50 new_JiraApiClient) = None \<and>
   getAllIssues_loop not_found default_config ''KAFKA'' None (Suc 0) [7, 8] 100 new_JiraApiClient =
     Some ([7, 8], snd (searchIssues not_found default_config ''KAFKA'' 100 50 new_JiraApiClient))"
proof -
  have fresh: "search_offsets (events new_JiraApiClient) = []" "fetches new_JiraApiClient = 0"
    by (simp_all add: new_JiraApiClient_def search_offsets_single)
  have failed: "searchIssues not_found default_config ''KAFKA'' 100 50 new_JiraApiClient =
      (None, snd (searchIssues not_found default_config ''KAFKA'' 100 50 new_JiraApiClient))"
    using not_found_search by (simp add: prod_eq_iff)
  show ?thesis
    using getAllIssues_pages_to_the_end [where fuel = 3 and all = "[0..<137]" and clock = "\<lambda>n. 0"
        and cfg = default_config and key = "''KAFKA''" and c = new_JiraApiClient
        and e = not_found and start = 100 and limit = None and fuel' = 0 and acc = "[7, 8]"
        and ?c1.0 = "snd (searchIssues not_found default_config ''KAFKA'' 100 50 new_JiraApiClient)"]
      failed not_found_search
    by (simp add: fresh)
qed

text \<open>
  C6. Against the same server with 137 issues and a cap of 60, \<^verbatim>\<open>getAllIssues\<close>
  returns the first 60 issues after two requests, at offsets 0 and 50; there is no
  third request.
\<close>

theorem getAllIssues_cap_60:
  assumes "length all = 137" and "2 \<le> fuel"
  shows "\<exists>c'. getAllIssues (paged_server clock all) cfg key (Some 60) fuel c =
           Some (take 60 all, c') \<and>
         length (take 60 all) = 60 \<and>
         search_offsets (events c') = search_offsets (events c) @ [0, 50] \<and>
         fetches c' = fetches c + 2"
proof -
  let ?e = "paged_server clock all"
  from assms(2) obtain f where fuel: "fuel = Suc (Suc f)"
    by (metis Suc_le_D numeral_2_eq_2 Suc_le_mono)
  let ?c1 = "snd (searchIssues ?e cfg key 0 50 c)"
  let ?c2 = "snd (searchIssues ?e cfg key 50 50 ?c1)"
  have first: "issues (page_of all 0 50) = take 50 all"
    by (simp add: page_of_def)
  have second: "issues (page_of all 50 50) = take 50 (drop 50 all)"
    by (simp add: page_of_def)
  have "\<not> limit_reached (Some 60) ([] @ issues (page_of all 0 50))"
    using assms(1) by (simp add: limit_reached_def first)
  from loop_step_paged [OF this, of clock cfg key "Suc f" c]
  have step1: "getAllIssues_loop ?e cfg key (Some 60) (Suc (Suc f)) [] 0 c =
      getAllIssues_loop ?e cfg key (Some 60) (Suc f) (take 50 all) 50 ?c1"
    using assms(1) by (simp add: first)
  obtain a c2 where s: "searchIssues ?e cfg key 50 50 ?c1 = (a, c2)"
    by (cases "searchIssues ?e cfg key 50 50 ?c1")
  with searchIssues_paged(1) [of clock all cfg key 50 ?c1]
  have a: "a = Some (page_of all 50 50)" by simp
  have c2: "c2 = ?c2" using s by simp
  have reached: "limit_reached (Some 60) (take 50 all @ take 50 (drop 50 all))"
    using assms(1) by (simp add: limit_reached_def)
  have cut: "slice_to (take 50 all @ take 50 (drop 50 all)) 60 = take 60 all"
  proof -
    have "take 50 all @ take 50 (drop 50 all) = take (50 + 50) all"
      by (simp only: take_add)
    then show ?thesis
      by (simp add: slice_to_def)
  qed
  have step2: "getAllIssues_loop ?e cfg key (Some 60) (Suc f) (take 50 all) 50 ?c1 =
      Some (take 60 all, ?c2)"
    using reached by (simp add: s a second cut c2 [symmetric] Let_def)
  have "getAllIssues ?e cfg key (Some 60) fuel c = Some (take 60 all, ?c2)"
    by (simp only: getAllIssues_def fuel step1 step2)
  moreover have "length (take 60 all) = 60"
    using assms(1) by simp
  moreover have "search_offsets (events ?c2) = search_offsets (events c) @ [0, 50]"
    by (simp add: searchIssues_paged)
  moreover have "fetches ?c2 = fetches c + 2"
    by (simp add: searchIssues_paged)
  ultimately show ?thesis by blast
qed

theorem getAllIssues_cap_60_witness:
  "length [0..<137] = 137 \<and> (2::nat) \<le> 2 \<and>
   (\<exists>c'. getAllIssues (paged_server (\<lambda>n. 0) [0..<137]) default_config ''KAFKA'' (Some 60) 2
           new_JiraApiClient = Some ([0..<60], c') \<and>
         length [0..<60] = 60 \<and>
         search_offsets (events c') = [0, 50] \<and> fetches c' = 2)"
proof -
  have fresh: "search_offsets (events new_JiraApiClient) = []" "fetches new_JiraApiClient = 0"
    by (simp_all add: new_JiraApiClient_def search_offsets_single)
  have len: "length [0..<137] = 137" by simp
  show ?thesis
    using getAllIssues_cap_60 [OF len order_refl, of "\<lambda>n. 0" default_config "''KAFKA''"
        new_JiraApiClient]
    by (simp add: fresh numeral_2_eq_2)
qed

text \<open>
  C9. A cap of 0 is no cap: for every server, project key, fuel and client,
  \<^verbatim>\<open>getAllIssues\<close> with cap 0 does what it does with cap \<^verbatim>\<open>null\<close>. Against the paging
  server it returns all the issues, not the empty list.
\<close>

theorem zero_cap_is_no_cap:
  "getAllIssues e cfg key (Some 0) fuel c = getAllIssues e cfg key None fuel c \<and>
   (\<exists>c'. getAllIssues (paged_server clock all) cfg key (Some 0) (Suc (length all)) c =
      Some (all, c'))"
proof -
  have "\<exists>c'. getAllIssues (paged_server clock all) cfg key (Some 0) (Suc (length all)) c =
      Some (all, c')"
    using loop_paged [of "Some 0" "Suc (length all)" all 0 clock cfg key c]
    by (auto simp add: getAllIssues_def no_cap_def)
  then show ?thesis
    by (simp add: getAllIssues_def loop_zero_cap)
qed

end
